theory Spec2Isabelle
  imports Complex_Main
begin

section \<open>JavaScript values used by the network data model\<close>

text \<open>
  The numbers of \<^verbatim>\<open>src/js/netdata.js\<close> are IEEE doubles. Every finite double is a real
  number, and the operations the data model applies to matrix entries (comparison,
  \<^verbatim>\<open>Math.abs\<close>, \<^verbatim>\<open>isNaN\<close>, copying) are exact on doubles, so the content of a numeric
  array cell is modelled as \<^verbatim>\<open>undefined\<close>, \<^verbatim>\<open>NaN\<close>, an infinity or a real. Reading a
  numeric array past its end gives \<^verbatim>\<open>undefined\<close>.
\<close>

datatype jsval = Undefined | NaN | NegInf | Num real | PosInf

datatype error = TypeError | Thrown string

text \<open>\<^verbatim>\<open>ToNumber\<close>: \<^verbatim>\<open>undefined\<close> becomes \<^verbatim>\<open>NaN\<close>.\<close>

fun toNumber :: "jsval \<Rightarrow> jsval" where
  "toNumber Undefined = NaN"
| "toNumber x = x"

text \<open>The global \<^verbatim>\<open>isNaN\<close>: converts its argument to a number first.\<close>

definition isNaN :: "jsval \<Rightarrow> bool" where
  "isNaN v = (toNumber v = NaN)"

text \<open>\<^verbatim>\<open>a < b\<close>: false as soon as one side converts to \<^verbatim>\<open>NaN\<close>.\<close>

fun js_lt :: "jsval \<Rightarrow> jsval \<Rightarrow> bool" where
  "js_lt Undefined _ = False"
| "js_lt _ Undefined = False"
| "js_lt NaN _ = False"
| "js_lt _ NaN = False"
| "js_lt _ NegInf = False"
| "js_lt NegInf _ = True"
| "js_lt PosInf _ = False"
| "js_lt (Num a) PosInf = True"
| "js_lt (Num a) (Num b) = (a < b)"

text \<open>\<^verbatim>\<open>a > b\<close> is \<^verbatim>\<open>b < a\<close>.\<close>

definition js_gt :: "jsval \<Rightarrow> jsval \<Rightarrow> bool" where
  "js_gt a b = js_lt b a"

text \<open>\<^verbatim>\<open>Math.abs\<close>.\<close>

fun js_abs :: "jsval \<Rightarrow> jsval" where
  "js_abs Undefined = NaN"
| "js_abs NaN = NaN"
| "js_abs NegInf = PosInf"
| "js_abs PosInf = PosInf"
| "js_abs (Num a) = Num \<bar>a\<bar>"

text \<open>\<^verbatim>\<open>x - c\<close> for a finite constant \<open>c\<close>. It is used on linkage ids only, to compute an
  array index; there the real difference is an array index exactly when the double
  difference is one.\<close>

fun js_minus :: "jsval \<Rightarrow> real \<Rightarrow> jsval" where
  "js_minus (Num a) c = Num (a - c)"
| "js_minus Undefined c = NaN"
| "js_minus x c = x"

text \<open>The product of two numbers, without the rounding of the double format: it is the
  product of JavaScript wherever the real product of the operands is a double.\<close>

fun js_times :: "jsval \<Rightarrow> jsval \<Rightarrow> jsval" where
  "js_times (Num a) (Num b) = Num (a * b)"
| "js_times (Num a) PosInf = (if a = 0 then NaN else if 0 < a then PosInf else NegInf)"
| "js_times (Num a) NegInf = (if a = 0 then NaN else if 0 < a then NegInf else PosInf)"
| "js_times PosInf (Num b) = (if b = 0 then NaN else if 0 < b then PosInf else NegInf)"
| "js_times NegInf (Num b) = (if b = 0 then NaN else if 0 < b then NegInf else PosInf)"
| "js_times PosInf PosInf = PosInf"
| "js_times PosInf NegInf = NegInf"
| "js_times NegInf PosInf = NegInf"
| "js_times NegInf NegInf = PosInf"
| "js_times _ _ = NaN"

text \<open>\<^verbatim>\<open>Number.MAX_VALUE\<close>, the largest finite double.\<close>

definition MAX_VALUE :: real where
  "MAX_VALUE = (2 ^ 53 - 1) * 2 ^ 971"

text \<open>
  Array reads. \<^verbatim>\<open>xs[i]\<close> past the end is \<^verbatim>\<open>undefined\<close>; \<^verbatim>\<open>m[i][j]\<close> throws a
  \<^verbatim>\<open>TypeError\<close> when \<^verbatim>\<open>m[i]\<close> is \<^verbatim>\<open>undefined\<close>. An array is indexed by a number: only
  a non-negative integer below the length finds an element.
\<close>

definition arr_get :: "'a list \<Rightarrow> nat \<Rightarrow> 'a option" where
  "arr_get xs i = (if i < length xs then Some (xs ! i) else None)"

definition arr_get_int :: "'a list \<Rightarrow> int \<Rightarrow> 'a option" where
  "arr_get_int xs i = (if 0 \<le> i \<and> i < int (length xs) then Some (xs ! nat i) else None)"

definition jsIndex :: "jsval \<Rightarrow> nat option" where
  "jsIndex v = (case v of Num r \<Rightarrow> if 0 \<le> r \<and> r = of_int \<lfloor>r\<rfloor> then Some (nat \<lfloor>r\<rfloor>) else None
                | _ \<Rightarrow> None)"

definition arr_get_num :: "'a list \<Rightarrow> jsval \<Rightarrow> 'a option" where
  "arr_get_num xs v = (case jsIndex v of None \<Rightarrow> None | Some i \<Rightarrow> arr_get xs i)"

definition val_get :: "jsval list \<Rightarrow> nat \<Rightarrow> jsval" where
  "val_get xs i = (if i < length xs then xs ! i else Undefined)"

definition opt_get :: "'a option list \<Rightarrow> nat \<Rightarrow> 'a option" where
  "opt_get xs i = (if i < length xs then xs ! i else None)"

definition arr_get2 :: "jsval list list \<Rightarrow> nat \<Rightarrow> nat \<Rightarrow> error + jsval" where
  "arr_get2 m i j = (case arr_get m i of None \<Rightarrow> Inl TypeError | Some row \<Rightarrow> Inr (val_get row j))"

text \<open>\<^verbatim>\<open>xs.indexOf(v)\<close>; \<open>None\<close> stands for the result \<^verbatim>\<open>-1\<close>. It is used on references
  and on a value that is never \<^verbatim>\<open>NaN\<close>, where strict equality is equality.\<close>

fun indexOf :: "'a list \<Rightarrow> 'a \<Rightarrow> nat option" where
  "indexOf [] v = None"
| "indexOf (x # xs) v = (if x = v then Some 0 else map_option Suc (indexOf xs v))"

text \<open>\<^verbatim>\<open>xs.splice(idx, 1)\<close>, for \<^verbatim>\<open>idx\<close> the result of \<^verbatim>\<open>indexOf\<close>: the start \<^verbatim>\<open>-1\<close> counts from
  the end, so the last element is removed when the element was not found.\<close>

definition splice1 :: "'a list \<Rightarrow> nat option \<Rightarrow> 'a list" where
  "splice1 xs idx = (case idx of None \<Rightarrow> butlast xs | Some i \<Rightarrow> take i xs @ drop (Suc i) xs)"

text \<open>A loop body run over a list of loop-variable values, stopping at the first throw.
  A throw keeps the state reached so far, as an exception leaves the mutated objects.\<close>

fun foldE :: "('a \<Rightarrow> 's \<Rightarrow> (error \<times> 's) + 's) \<Rightarrow> 'a list \<Rightarrow> 's \<Rightarrow> (error \<times> 's) + 's" where
  "foldE f [] s = Inr s"
| "foldE f (x # xs) s = (case f x s of Inl e \<Rightarrow> Inl e | Inr s' \<Rightarrow> foldE f xs s')"

text \<open>\<^verbatim>\<open>xs.map(f)\<close> where \<open>f\<close> may throw: the first throw ends the map.\<close>

fun mapE :: "('a \<Rightarrow> error + 'b) \<Rightarrow> 'a list \<Rightarrow> error + 'b list" where
  "mapE f [] = Inr []"
| "mapE f (x # xs) =
     (case f x of Inl e \<Rightarrow> Inl e
      | Inr y \<Rightarrow> (case mapE f xs of Inl e \<Rightarrow> Inl e | Inr ys \<Rightarrow> Inr (y # ys)))"

text \<open>
  \<^verbatim>\<open>d3.min\<close> and \<^verbatim>\<open>d3.max\<close> belong to the d3 library (\<^verbatim>\<open>lib/d3\<close>), which the module
  loads. They are modelled after the library's one-argument case: the first element
  \<open>b\<close> with \<^verbatim>\<open>b != null && b >= b\<close> starts the scan, a later element replaces the current
  value when it is not \<^verbatim>\<open>null\<close>/\<^verbatim>\<open>undefined\<close> and compares strictly below (above) it, and
  the result is \<^verbatim>\<open>undefined\<close> when no element starts the scan.
\<close>

fun d3_min_from :: "jsval \<Rightarrow> jsval list \<Rightarrow> jsval" where
  "d3_min_from a [] = a"
| "d3_min_from a (b # bs) = (if b \<noteq> Undefined \<and> js_gt a b then d3_min_from b bs else d3_min_from a bs)"

fun d3_min :: "jsval list \<Rightarrow> jsval" where
  "d3_min [] = Undefined"
| "d3_min (b # bs) = (if b \<noteq> Undefined \<and> b \<noteq> NaN then d3_min_from b bs else d3_min bs)"

fun d3_max_from :: "jsval \<Rightarrow> jsval list \<Rightarrow> jsval" where
  "d3_max_from a [] = a"
| "d3_max_from a (b # bs) = (if b \<noteq> Undefined \<and> js_gt b a then d3_max_from b bs else d3_max_from a bs)"

fun d3_max :: "jsval list \<Rightarrow> jsval" where
  "d3_max [] = Undefined"
| "d3_max (b # bs) = (if b \<noteq> Undefined \<and> b \<noteq> NaN then d3_max_from b bs else d3_max bs)"

text \<open>\<^verbatim>\<open>"" + n\<close> for a non-negative integer, and \<^verbatim>\<open>d3.format("04d")\<close>, which pads the
  decimal digits with zeros to four characters.\<close>

definition digitChar :: "nat \<Rightarrow> char" where
  "digitChar d = ''0123456789'' ! d"

function showNat :: "nat \<Rightarrow> string" where
  "showNat n = (if n < 10 then [digitChar n] else showNat (n div 10) @ [digitChar (n mod 10)])"
  by pat_completeness auto
termination
  by (relation "measure id") auto

definition zerofmt :: "nat \<Rightarrow> string" where
  "zerofmt n = replicate (4 - length (showNat n)) (CHR ''0'') @ showNat n"

section \<open>The data model\<close>

text \<open>
  Objects are held in arenas. A network node is referred to by its position in
  \<^verbatim>\<open>network.nodes\<close> (the list is filled once, by \<^verbatim>\<open>createNetwork\<close>, and never
  reordered); an edge by its position in \<^verbatim>\<open>network.edges\<close>; a dendrogram tree node by
  its address in the heap of tree nodes, where every tree node ever created for the
  network stays, also after it has been spliced out of \<^verbatim>\<open>network.treeNodes\<close>. A field
  that does not exist yet is \<open>None\<close>, an empty list or \<^verbatim>\<open>undefined\<close>.
\<close>

datatype ref = NodeRef nat | TreeRef nat

record node =
  n_index :: nat
  n_name :: string
  n_nodeData :: "jsval list"
  n_thumbnail :: "string option"
  n_edges :: "nat list"
  n_neighbours :: "nat list"
  n_parent :: "nat option"
  n_fullNetIndex :: "nat option"

record edge =
  e_i :: nat
  e_j :: nat
  e_source :: nat
  e_target :: nat
  e_weights :: "jsval list"

record tnode =
  t_children :: "ref list"
  t_distance :: jsval
  t_index :: "nat option"
  t_parent :: "nat option"

record scaleInfo =
  edgeWidthIdx :: int
  edgeColourIdx :: int
  nodeColourIdx :: int

type_synonym matrix = "jsval list list"

text \<open>
  The threshold function is a field of the network. It gets the threshold matrix
  (\<open>None\<close> when \<^verbatim>\<open>network.matrices[network.thresholdIdx]\<close> is \<^verbatim>\<open>undefined\<close>) and the array of
  threshold values, and returns a matrix or throws. It is taken to be a function of its
  arguments: it keeps no state and does not write to the matrix it is given.

  The threshold values and their labels are arrays of values of any type \<open>'p\<close>, or
  \<^verbatim>\<open>undefined\<close> (\<open>None\<close>). \<^verbatim>\<open>createNetwork\<close> stores the two arrays it is given, not copies,
  \<^verbatim>\<open>setThresholdValue\<close> writes into the array of values in place, and \<^verbatim>\<open>extractSubNetwork\<close>
  hands the arrays of a network to its sub-network. So the two fields of a network are
  addresses into a store of arrays that all networks share. No other array that two
  networks share is ever written.
\<close>

type_synonym 'p store = "'p option list list"

record 'p network =
  nodes :: "node list"
  nodeData :: "jsval list list"
  nodeDataLabels :: "string list"
  matrices :: "matrix list"
  matrixLabels :: "string list"
  linkage :: "jsval list list option"
  thumbUrl :: "string option"
  thresholdFunc :: "matrix option \<Rightarrow> 'p option list \<Rightarrow> error + matrix"
  thresholdValues :: nat
  thresholdValueLabels :: nat
  thresholdIdx :: int
  numClusters :: int
  edges :: "edge list"
  matrixMins :: "jsval list"
  matrixMaxs :: "jsval list"
  matrixAbsMins :: "jsval list"
  matrixAbsMaxs :: "jsval list"
  heap :: "tnode list"
  treeNodes :: "nat list option"
  scaleInfo :: "scaleInfo option"

section \<open>The graph builder: \<^verbatim>\<open>thresholdNetwork\<close>\<close>

record stats =
  s_mins :: "jsval list"
  s_maxs :: "jsval list"
  s_absMins :: "jsval list"
  s_absMaxs :: "jsval list"

text \<open>The loop over \<open>k\<close> that updates the four running statistics with the weights of a
  new edge. The four arrays and the weight vector all have one entry per matrix.\<close>

definition updMax :: "jsval \<Rightarrow> jsval \<Rightarrow> jsval" where
  "updMax w m = (if js_gt w m then w else m)"

definition updMin :: "jsval \<Rightarrow> jsval \<Rightarrow> jsval" where
  "updMin w m = (if js_lt w m then w else m)"

definition updateStats :: "jsval list \<Rightarrow> stats \<Rightarrow> stats" where
  "updateStats ws st =
     \<lparr> s_mins = map2 updMin ws (s_mins st),
       s_maxs = map2 updMax ws (s_maxs st),
       s_absMins = map2 updMin (map js_abs ws) (s_absMins st),
       s_absMaxs = map2 updMax (map js_abs ws) (s_absMaxs st) \<rparr>"

definition pushNeighbour :: "nat \<Rightarrow> nat \<Rightarrow> node list \<Rightarrow> node list" where
  "pushNeighbour a b ns = ns[a := (ns ! a)\<lparr>n_neighbours := n_neighbours (ns ! a) @ [b]\<rparr>]"

definition pushEdge :: "nat \<Rightarrow> nat \<Rightarrow> node list \<Rightarrow> node list" where
  "pushEdge a eid ns = ns[a := (ns ! a)\<lparr>n_edges := n_edges (ns ! a) @ [eid]\<rparr>]"

text \<open>The body of the inner loop, for one pair \<open>i < j\<close> of node positions.\<close>

definition edgeStep ::
  "matrix \<Rightarrow> nat \<Rightarrow> nat \<Rightarrow> 'p network \<times> stats \<Rightarrow> (error \<times> 'p network \<times> stats) + 'p network \<times> stats" where
  "edgeStep matrix i j s =
     (case s of (network, st) \<Rightarrow>
        (case arr_get2 matrix i j of
           Inl err \<Rightarrow> Inl (err, s)
         | Inr v \<Rightarrow>
             if isNaN v then Inr s
             else (case mapE (\<lambda>mat. arr_get2 mat i j) (matrices network) of
                     Inl err \<Rightarrow> Inl (err, s)
                   | Inr ws \<Rightarrow>
                       let e = \<lparr> e_i = i, e_j = j, e_source = i, e_target = j, e_weights = ws \<rparr>;
                           eid = length (edges network);
                           ns = pushEdge j eid (pushEdge i eid
                                  (pushNeighbour j i (pushNeighbour i j (nodes network))))
                       in Inr (network\<lparr>edges := edges network @ [e], nodes := ns\<rparr>,
                               updateStats ws st))))"

definition innerLoop ::
  "matrix \<Rightarrow> nat \<Rightarrow> nat \<Rightarrow> 'p network \<times> stats \<Rightarrow> (error \<times> 'p network \<times> stats) + 'p network \<times> stats" where
  "innerLoop matrix numNodes i s = foldE (\<lambda>j. edgeStep matrix i j) [Suc i..<numNodes] s"

definition outerLoop ::
  "matrix \<Rightarrow> nat \<Rightarrow> 'p network \<times> stats \<Rightarrow> (error \<times> 'p network \<times> stats) + 'p network \<times> stats" where
  "outerLoop matrix numNodes s = foldE (\<lambda>i. innerLoop matrix numNodes i) [0..<numNodes] s"

definition initStats :: "nat \<Rightarrow> stats" where
  "initStats n =
     \<lparr> s_mins = replicate n (Num MAX_VALUE),
       s_maxs = replicate n (Num (- MAX_VALUE)),
       s_absMins = replicate n (Num MAX_VALUE),
       s_absMaxs = replicate n (Num (- MAX_VALUE)) \<rparr>"

definition clearNode :: "node \<Rightarrow> node" where
  "clearNode n = n\<lparr>n_edges := [], n_neighbours := []\<rparr>"

definition thresholdNetwork :: "'p store \<Rightarrow> 'p network \<Rightarrow> (error \<times> 'p network) + 'p network" where
  "thresholdNetwork st network =
     (let matrix = arr_get_int (matrices network) (thresholdIdx network);
          numNodes = length (nodes network);
          network1 = network\<lparr>edges := []\<rparr>
      in case thresholdFunc network1 matrix (st ! thresholdValues network1) of
           Inl err \<Rightarrow> Inl (err, network1)
         | Inr matrix' \<Rightarrow>
             let st = initStats (length (matrices network1));
                 network2 = network1\<lparr>nodes := map clearNode (nodes network1)\<rparr>
             in (case outerLoop matrix' numNodes (network2, st) of
                   Inl (err, network3, st') \<Rightarrow> Inl (err, network3)
                 | Inr (network3, st') \<Rightarrow>
                     Inr (network3\<lparr>matrixMins := s_mins st', matrixMaxs := s_maxs st',
                                   matrixAbsMins := s_absMins st',
                                   matrixAbsMaxs := s_absMaxs st'\<rparr>)))"

section \<open>The dendrogram: \<^verbatim>\<open>makeNetworkDendrogramTree\<close> and \<^verbatim>\<open>flattenDendrogramTree\<close>\<close>

text \<open>Writing the \<^verbatim>\<open>parent\<close> field of a network node or of a tree node, and pushing a
  child onto a tree node's \<^verbatim>\<open>children\<close> array.\<close>

definition setParent :: "ref \<Rightarrow> nat \<Rightarrow> 'p network \<Rightarrow> 'p network" where
  "setParent r p network =
     (case r of
        NodeRef k \<Rightarrow> network\<lparr>nodes := (nodes network)[k := (nodes network ! k)\<lparr>n_parent := Some p\<rparr>]\<rparr>
      | TreeRef t \<Rightarrow> network\<lparr>heap := (heap network)[t := (heap network ! t)\<lparr>t_parent := Some p\<rparr>]\<rparr>)"

definition setChildren :: "nat \<Rightarrow> ref list \<Rightarrow> 'p network \<Rightarrow> 'p network" where
  "setChildren t cs network =
     network\<lparr>heap := (heap network)[t := (heap network ! t)\<lparr>t_children := cs\<rparr>]\<rparr>"

definition pushChild :: "nat \<Rightarrow> ref \<Rightarrow> 'p network \<Rightarrow> 'p network" where
  "pushChild t c network = setChildren t (t_children (heap network ! t) @ [c]) network"

text \<open>The object \<^verbatim>\<open>{}\<close> a loop iteration of \<^verbatim>\<open>makeNetworkDendrogramTree\<close> starts with.\<close>

definition blankTreeNode :: tnode where
  "blankTreeNode = \<lparr> t_children = [], t_distance = Undefined, t_index = None, t_parent = None \<rparr>"

text \<open>What a linkage id refers to: a tree node built by an earlier row when the id is
  above the number of nodes, a network node otherwise; \<open>None\<close> is \<^verbatim>\<open>undefined\<close>.\<close>

definition resolveId :: "nat \<Rightarrow> nat list \<Rightarrow> jsval \<Rightarrow> ref option" where
  "resolveId numNodes tns v =
     (if js_gt v (Num (real numNodes))
      then map_option TreeRef (arr_get_num tns (js_minus (js_minus v 1) (real numNodes)))
      else map_option NodeRef (arr_get_num [0..<numNodes] (js_minus v 1)))"

text \<open>One iteration of the loop over the linkage rows. The state is the network and the
  local array \<^verbatim>\<open>treeNodes\<close> (\<open>tns\<close>), as a list of heap addresses.\<close>

definition linkageStep ::
  "nat \<Rightarrow> nat \<times> jsval list \<Rightarrow> 'p network \<times> nat list
     \<Rightarrow> (error \<times> 'p network \<times> nat list) + 'p network \<times> nat list" where
  "linkageStep numNodes ir s =
     (case s of (network, tns) \<Rightarrow>
        let i = fst ir;
            row = snd ir;
            treeNode = length (heap network);
            network0 = network\<lparr>heap := heap network @ [blankTreeNode]\<rparr>;
            left = resolveId numNodes tns (val_get row 0);
            right = resolveId numNodes tns (val_get row 1)
        in (case left of
              None \<Rightarrow> Inl (TypeError, network0, tns)
            | Some l \<Rightarrow>
                let network1 = setParent l treeNode network0
                in (case right of
                      None \<Rightarrow> Inl (TypeError, network1, tns)
                    | Some r \<Rightarrow>
                        let network2 = setParent r treeNode network1;
                            network3 = network2\<lparr>heap := (heap network2)[treeNode :=
                               (heap network2 ! treeNode)\<lparr>t_children := [l, r],
                                  t_distance := val_get row 2,
                                  t_index := Some (i + numNodes)\<rparr>]\<rparr>
                        in Inr (network3, tns @ [treeNode]))))"

definition makeNetworkDendrogramTree ::
  "'p network \<Rightarrow> jsval list list \<Rightarrow> (error \<times> 'p network) + 'p network" where
  "makeNetworkDendrogramTree network linkages =
     (let numNodes = length (nodes network)
      in case foldE (linkageStep numNodes) (zip [0..<length linkages] linkages) (network, []) of
           Inl (err, network', tns) \<Rightarrow> Inl (err, network')
         | Inr (network', tns) \<Rightarrow> Inr (network'\<lparr>treeNodes := Some tns\<rparr>))"

text \<open>\<^verbatim>\<open>getClusters\<close>: the parents of the network nodes, each kept at its first
  occurrence. A node without parent contributes \<^verbatim>\<open>undefined\<close>.\<close>

fun uniq :: "'a list \<Rightarrow> 'a list \<Rightarrow> 'a list" where
  "uniq acc [] = acc"
| "uniq acc (x # xs) = (if x \<in> set acc then uniq acc xs else uniq (acc @ [x]) xs)"

definition getClusters :: "'p network \<Rightarrow> nat option list" where
  "getClusters network = uniq [] (map n_parent (nodes network))"

text \<open>The body of the \<^verbatim>\<open>while\<close> loop: the cluster with the least distance is squeezed out
  of the tree. Every statement that can throw comes before the first write, so a throw
  leaves the network as it was.\<close>

definition squeezeCluster :: "'p network \<Rightarrow> nat option list \<Rightarrow> error + 'p network" where
  "squeezeCluster network clusters =
     (case mapE (\<lambda>clust. case clust of None \<Rightarrow> Inl TypeError
                                  | Some c \<Rightarrow> Inr (t_distance (heap network ! c))) clusters of
        Inl err \<Rightarrow> Inl err
      | Inr distances \<Rightarrow>
          (case indexOf distances (d3_min distances) of
             None \<Rightarrow> Inl TypeError
           | Some minIdx \<Rightarrow>
               (case clusters ! minIdx of
                  None \<Rightarrow> Inl TypeError
                | Some clust \<Rightarrow>
                    (case t_parent (heap network ! clust) of
                       None \<Rightarrow> Inl TypeError
                     | Some parent \<Rightarrow>
                         (case treeNodes network of
                            None \<Rightarrow> Inl TypeError
                          | Some tns \<Rightarrow>
                              let clustChildIdx = indexOf (t_children (heap network ! parent)) (TreeRef clust);
                                  clustTreeIdx = indexOf tns clust;
                                  network1 = setChildren parent
                                     (splice1 (t_children (heap network ! parent)) clustChildIdx) network;
                                  network2 = network1\<lparr>treeNodes := Some (splice1 tns clustTreeIdx)\<rparr>;
                                  children = t_children (heap network2 ! clust)
                              in Inr (fold (\<lambda>child net. pushChild parent child (setParent child parent net))
                                        children network2))))))"

text \<open>The \<^verbatim>\<open>while\<close> loop. Nothing bounds the number of its iterations on an arbitrary
  object graph, so not returning is the value \<open>None\<close>.\<close>

partial_function (option) flattenLoop ::
  "'p network \<Rightarrow> int \<Rightarrow> ((error \<times> 'p network) + 'p network) option" where
  "flattenLoop network maxClusters =
     (if int (length (getClusters network)) > maxClusters
      then (case squeezeCluster network (getClusters network) of
              Inl err \<Rightarrow> Some (Inl (err, network))
            | Inr network' \<Rightarrow> flattenLoop network' maxClusters)
      else Some (Inr network))"

declare flattenLoop.simps [code]

definition flattenDendrogramTree ::
  "'p network \<Rightarrow> int \<Rightarrow> ((error \<times> 'p network) + 'p network) option" where
  "flattenDendrogramTree network maxClusters = flattenLoop network maxClusters"

definition setNumClusters ::
  "'p network \<Rightarrow> int \<Rightarrow> ((error \<times> 'p network) + 'p network) option" where
  "setNumClusters network numClusts =
     (case linkage network of
        None \<Rightarrow> Some (Inr network)
      | Some linkages \<Rightarrow>
          (case makeNetworkDendrogramTree network linkages of
             Inl e \<Rightarrow> Some (Inl e)
           | Inr network1 \<Rightarrow>
               (case flattenDendrogramTree network1 numClusts of
                  None \<Rightarrow> None
                | Some (Inl e) \<Rightarrow> Some (Inl e)
                | Some (Inr network2) \<Rightarrow> Some (Inr (network2\<lparr>numClusters := numClusts\<rparr>)))))"

section \<open>Construction and the operations on a network\<close>

text \<open>\<^verbatim>\<open>genColourScales\<close> reads the index fields of the \<^verbatim>\<open>scaleInfo\<close> object and the weight
  bounds of the network and attaches d3 scales to the \<^verbatim>\<open>scaleInfo\<close> object. The scales are
  presentation only; what is kept of the function is that it throws when there is no
  \<^verbatim>\<open>scaleInfo\<close> object and that it changes nothing of the data model.\<close>

definition genColourScales :: "'p network \<Rightarrow> scaleInfo option \<Rightarrow> (error \<times> 'p network) + 'p network" where
  "genColourScales network si = (case si of None \<Rightarrow> Inl (TypeError, network) | Some s \<Rightarrow> Inr network)"

definition newNode :: "jsval list list \<Rightarrow> string option \<Rightarrow> nat \<Rightarrow> node" where
  "newNode nodeData' thumbUrl' i =
     \<lparr> n_index = i,
       n_name = showNat (i + 1),
       n_nodeData = map (\<lambda>array. val_get array i) nodeData',
       n_thumbnail = (case thumbUrl' of None \<Rightarrow> None
                      | Some url \<Rightarrow> Some (url @ ''/'' @ zerofmt i @ ''.png'')),
       n_edges = [], n_neighbours = [], n_parent = None, n_fullNetIndex = None \<rparr>"

text \<open>The network object of \<^verbatim>\<open>createNetwork\<close> at the point where \<^verbatim>\<open>thresholdNetwork\<close> is
  called on it.\<close>

definition initNetwork ::
  "matrix list \<Rightarrow> string list \<Rightarrow> jsval list list \<Rightarrow> string list \<Rightarrow> jsval list list option
     \<Rightarrow> string option \<Rightarrow> (matrix option \<Rightarrow> 'p option list \<Rightarrow> error + matrix)
     \<Rightarrow> nat \<Rightarrow> nat \<Rightarrow> int \<Rightarrow> int \<Rightarrow> nat \<Rightarrow> 'p network" where
  "initNetwork matrices' matrixLabels' nodeData' nodeDataLabels' linkage' thumbUrl' thresholdFunc'
       thresholdValues' thresholdValueLabels' thresholdIdx' numClusters' numNodes =
     \<lparr> nodes = map (newNode nodeData' thumbUrl') [0..<numNodes],
       nodeData = nodeData', nodeDataLabels = nodeDataLabels',
       matrices = matrices', matrixLabels = matrixLabels',
       linkage = linkage', thumbUrl = thumbUrl',
       thresholdFunc = thresholdFunc', thresholdValues = thresholdValues',
       thresholdValueLabels = thresholdValueLabels', thresholdIdx = thresholdIdx',
       numClusters = numClusters',
       edges = [], matrixMins = [], matrixMaxs = [], matrixAbsMins = [], matrixAbsMaxs = [],
       heap = [], treeNodes = None, scaleInfo = None \<rparr>"

text \<open>\<^verbatim>\<open>createNetwork\<close> returns the network or throws; the object it was building is lost
  with a throw. It writes to no array of the store.\<close>

definition createNetwork ::
  "'p store \<Rightarrow> matrix list \<Rightarrow> string list \<Rightarrow> jsval list list \<Rightarrow> string list
     \<Rightarrow> jsval list list option \<Rightarrow> string option
     \<Rightarrow> (matrix option \<Rightarrow> 'p option list \<Rightarrow> error + matrix)
     \<Rightarrow> nat \<Rightarrow> nat \<Rightarrow> int \<Rightarrow> int \<Rightarrow> (error + 'p network) option" where
  "createNetwork st matrices' matrixLabels' nodeData' nodeDataLabels' linkage' thumbUrl' thresholdFunc'
       thresholdValues' thresholdValueLabels' thresholdIdx' numClusters' =
     (case arr_get matrices' 0 of
        None \<Rightarrow> Some (Inl TypeError)
      | Some m0 \<Rightarrow>
          let network = initNetwork matrices' matrixLabels' nodeData' nodeDataLabels' linkage' thumbUrl'
                          thresholdFunc' thresholdValues' thresholdValueLabels' thresholdIdx'
                          numClusters' (length m0)
          in (case thresholdNetwork st network of
                Inl (err, n) \<Rightarrow> Some (Inl err)
              | Inr network1 \<Rightarrow>
                  (case setNumClusters network1 numClusters' of
                     None \<Rightarrow> None
                   | Some (Inl (err, n)) \<Rightarrow> Some (Inl err)
                   | Some (Inr network2) \<Rightarrow>
                       let si = \<lparr> edgeWidthIdx = 0, edgeColourIdx = 0, nodeColourIdx = 0 \<rparr>
                       in (case genColourScales network2 (Some si) of
                             Inl (err, n) \<Rightarrow> Some (Inl err)
                           | Inr network3 \<Rightarrow> Some (Inr (network3\<lparr>scaleInfo := Some si\<rparr>))))))"

text \<open>\<^verbatim>\<open>setThresholdValue\<close> and \<^verbatim>\<open>setThresholdMatrix\<close> return the network as the call leaves
  it, thrown or not, and the store.\<close>

definition setThresholdValue ::
  "'p store \<Rightarrow> 'p network \<Rightarrow> int \<Rightarrow> 'p option
     \<Rightarrow> (((error \<times> 'p network) + 'p network) \<times> 'p store) option" where
  "setThresholdValue st network idx v =
     (if idx < 0 \<or> idx \<ge> int (length (st ! thresholdValues network))
      then Some (Inl (Thrown ''Threshold value index out of range.'', network), st)
      else
        let st1 = st[thresholdValues network := (st ! thresholdValues network)[nat idx := v]]
        in (case thresholdNetwork st1 network of
              Inl e \<Rightarrow> Some (Inl e, st1)
            | Inr network2 \<Rightarrow>
                (case setNumClusters network2 (numClusters network2) of
                   None \<Rightarrow> None
                 | Some (Inl e) \<Rightarrow> Some (Inl e, st1)
                 | Some (Inr network3) \<Rightarrow>
                     Some (genColourScales network3 (scaleInfo network3), st1))))"

definition setThresholdMatrix ::
  "'p store \<Rightarrow> 'p network \<Rightarrow> int \<Rightarrow> (((error \<times> 'p network) + 'p network) \<times> 'p store) option" where
  "setThresholdMatrix st network idx =
     (if idx < 0 \<or> idx \<ge> int (length (matrices network))
      then Some (Inl (Thrown ''Matrix index out of range.'', network), st)
      else
        let network1 = network\<lparr>thresholdIdx := idx\<rparr>
        in setThresholdValue st network1 0 (opt_get (st ! thresholdValues network1) 0))"

section \<open>Sub-network extraction\<close>

definition extractSubMatrix :: "matrix \<Rightarrow> nat list \<Rightarrow> error + matrix" where
  "extractSubMatrix matrix indices =
     mapE (\<lambda>i. mapE (\<lambda>j. arr_get2 matrix i j) indices) indices"

text \<open>The loop that fixes the names and thumbnails of the sub-network's nodes and stores
  the index of the parent network's node.\<close>

definition fixNode :: "'p network \<Rightarrow> nat list \<Rightarrow> nat \<Rightarrow> 'p network \<Rightarrow> (error \<times> 'p network) + 'p network" where
  "fixNode network nodeIdxs i subnet =
     (case arr_get_num (nodes network) (case arr_get nodeIdxs i of None \<Rightarrow> Undefined
                                         | Some k \<Rightarrow> Num (real k)) of
        None \<Rightarrow> Inl (TypeError, subnet)
      | Some old \<Rightarrow>
          let node1 = (nodes subnet ! i)\<lparr>n_name := n_name old, n_fullNetIndex := Some (n_index old)\<rparr>;
              node2 = (case thumbUrl subnet of
                         None \<Rightarrow> node1
                       | Some u \<Rightarrow> node1\<lparr>n_thumbnail :=
                           Some (the (thumbUrl network) @ ''/'' @ zerofmt (nodeIdxs ! i) @ ''.png'')\<rparr>)
          in Inr (subnet\<lparr>nodes := (nodes subnet)[i := node2]\<rparr>))"

definition extractSubNetwork :: "'p store \<Rightarrow> 'p network \<Rightarrow> nat \<Rightarrow> (error + 'p network) option" where
  "extractSubNetwork st network rootIdx =
     (case arr_get (nodes network) rootIdx of
        None \<Rightarrow> Some (Inl TypeError)
      | Some oldRoot \<Rightarrow>
          let nodeIdxs = sort (rootIdx # map (\<lambda>nb. n_index (nodes network ! nb)) (n_neighbours oldRoot))
          in (case mapE (\<lambda>matrix. extractSubMatrix matrix nodeIdxs) (matrices network) of
                Inl err \<Rightarrow> Some (Inl err)
              | Inr subMatrices \<Rightarrow>
                  let subNodeData = map (\<lambda>array. map (\<lambda>idx. val_get array idx) nodeIdxs) (nodeData network)
                  in (case createNetwork st subMatrices (matrixLabels network) subNodeData
                             (nodeDataLabels network) None (thumbUrl network) (thresholdFunc network)
                             (thresholdValueLabels network) (thresholdValues network)
                             (thresholdIdx network) 1 of
                        None \<Rightarrow> None
                      | Some (Inl err) \<Rightarrow> Some (Inl err)
                      | Some (Inr subnet) \<Rightarrow>
                          (case foldE (fixNode network nodeIdxs) [0..<length (nodes subnet)] subnet of
                             Inl (err, n) \<Rightarrow> Some (Inl err)
                           | Inr subnet1 \<Rightarrow>
                               let root = length (heap subnet1);
                                   rootNode = \<lparr> t_children = map NodeRef [0..<length (nodes subnet1)],
                                                t_distance = Undefined,
                                                t_index = Some (length (nodes subnet1)),
                                                t_parent = None \<rparr>
                               in Some (Inr (subnet1\<lparr>heap := heap subnet1 @ [rootNode],
                                       nodes := map (\<lambda>node. node\<lparr>n_parent := Some root\<rparr>) (nodes subnet1),
                                       treeNodes := Some [root]\<rparr>))))))"

section \<open>The default threshold function: \<^verbatim>\<open>thresholdMatrix\<close>\<close>

text \<open>
  \<^verbatim>\<open>thresholdMatrix\<close> multiplies the greatest absolute value of a row by the threshold
  percentage \<^verbatim>\<open>args[0]\<close>. The product is a parameter \<open>mul\<close> of the model, from the row
  maximum and the possibly missing percentage to a number: what is proved about
  \<open>thresholdMatrix mul\<close> holds for the product of doubles with its rounding, and for
  any conversion of the percentage to a number.
\<close>

definition thresholdMatrix ::
  "(jsval \<Rightarrow> 'p option \<Rightarrow> jsval) \<Rightarrow> matrix option \<Rightarrow> 'p option list \<Rightarrow> error + matrix" where
  "thresholdMatrix mul matrix args =
     (case matrix of
        None \<Rightarrow> Inl TypeError
      | Some m \<Rightarrow>
          let thresPerc = opt_get args 0;
              nodeThress = map (\<lambda>row. mul (d3_max (map js_abs row)) thresPerc) m
          in Inr (map (\<lambda>i. map (\<lambda>j. if js_lt (js_abs (m ! i ! j)) (val_get nodeThress i) \<or>
                                        js_lt (js_abs (m ! i ! j)) (val_get nodeThress j)
                                     then NaN else m ! i ! j)
                               [0..<length (m ! i)])
                     [0..<length m]))"

section \<open>Notions used to state and prove the properties\<close>

text \<open>The pairs \<open>(i, j)\<close> the two nested loops of \<^verbatim>\<open>thresholdNetwork\<close> visit, in the order
  of the visits; the value of \<^verbatim>\<open>m[i][j]\<close> where the read does not throw; the edge object
  built for a pair; whether a pair passes the \<^verbatim>\<open>isNaN\<close> test of the thresholded matrix
  \<open>T\<close>; whether no read for a pair throws; the neighbours the edges of a list give to
  node \<open>a\<close>; the thresholded matrix of a network; and the statistics after the loops.\<close>

definition pairs :: "nat \<Rightarrow> (nat \<times> nat) list" where
  "pairs n = concat (map (\<lambda>i. map (Pair i) [Suc i..<n]) [0..<n])"

definition entry :: "matrix \<Rightarrow> nat \<Rightarrow> nat \<Rightarrow> jsval" where
  "entry m i j = (case arr_get2 m i j of Inl e \<Rightarrow> Undefined | Inr v \<Rightarrow> v)"

definition mkEdge :: "matrix list \<Rightarrow> nat \<times> nat \<Rightarrow> edge" where
  "mkEdge ms p = \<lparr> e_i = fst p, e_j = snd p, e_source = fst p, e_target = snd p,
                   e_weights = map (\<lambda>m. entry m (fst p) (snd p)) ms \<rparr>"

definition kept :: "matrix \<Rightarrow> nat \<times> nat \<Rightarrow> bool" where
  "kept T p = (\<not> isNaN (entry T (fst p) (snd p)))"

definition readable :: "matrix \<Rightarrow> matrix list \<Rightarrow> nat \<times> nat \<Rightarrow> bool" where
  "readable T ms p = (fst p < length T \<and> (kept T p \<longrightarrow> (\<forall>m \<in> set ms. fst p < length m)))"

definition nbrsOf :: "nat \<Rightarrow> edge list \<Rightarrow> nat list" where
  "nbrsOf a es = concat (map (\<lambda>e. if e_i e = a then [e_j e] else if e_j e = a then [e_i e] else []) es)"

definition thresholded :: "'p store \<Rightarrow> 'p network \<Rightarrow> error + matrix" where
  "thresholded st net =
     thresholdFunc net (arr_get_int (matrices net) (thresholdIdx net)) (st ! thresholdValues net)"

definition finalStats :: "matrix \<Rightarrow> matrix list \<Rightarrow> nat \<Rightarrow> stats" where
  "finalStats T ms n =
     fold (\<lambda>p. updateStats (e_weights (mkEdge ms p))) (filter (kept T) (pairs n)) (initStats (length ms))"

section \<open>Example inputs\<close>

text \<open>A threshold function that returns the matrix it is given: the network's threshold
  matrix is already thresholded.\<close>

definition noThreshold :: "matrix option \<Rightarrow> 'p option list \<Rightarrow> error + matrix" where
  "noThreshold m args = (case m of None \<Rightarrow> Inl TypeError | Some x \<Rightarrow> Inr x)"

definition exampleMatrix :: matrix where
  "exampleMatrix = [[Num 0, Num 5, NaN], [Num 5, Num 0, Num 1], [NaN, Num 1, Num 0]]"

text \<open>Threshold parameters of the examples: a number, or a label, which is a string that
  is not a numeric literal, so that \<^verbatim>\<open>ToNumber\<close> of it is \<^verbatim>\<open>NaN\<close>. \<open>paramTimes\<close> is the
  product of \<^verbatim>\<open>thresholdMatrix\<close> for such parameters, as the exact product of reals. The
  code's product of doubles is rounded, and the two can differ: for the row maximum 5
  and the double nearest to 0.1 the exact product is above 0.5 and the rounded product
  is 0.5, so that an entry 0.5 is below the one and not below the other. \<open>paramTimes\<close>
  is used in the worked examples only, where the two give the same comparisons: with the
  percentage 1/2 the product of doubles is exact, and with the percentage 1/10 against
  the row maximum 10 the product is 1 up to rounding and the entries compared with it
  are 4 and 10. What is proved of \<^verbatim>\<open>thresholdMatrix\<close> for all inputs is for every product
  \<open>mul\<close>.\<close>

datatype param = PNum jsval | PLabel string

definition paramTimes :: "jsval \<Rightarrow> param option \<Rightarrow> jsval" where
  "paramTimes a p = js_times (toNumber a) (case p of Some (PNum v) \<Rightarrow> toNumber v | _ \<Rightarrow> NaN)"

text \<open>A store with an empty array of threshold values at address 0 and an empty array
  of labels at address 1, and a store with one threshold value and its label.\<close>

definition emptyStore :: "param store" where
  "emptyStore = [[], []]"

definition exampleStore :: "param store" where
  "exampleStore = [[Some (PNum (Num (1 / 2)))], [Some (PLabel ''Threshold percentage'')]]"

definition exampleNetwork :: "param network" where
  "exampleNetwork = initNetwork [exampleMatrix] [''m''] [] [] None None noThreshold 0 1 0 1 3"

text \<open>The example network with the \<^verbatim>\<open>scaleInfo\<close> object \<^verbatim>\<open>createNetwork\<close> attaches.\<close>

definition liveNetwork :: "param network" where
  "liveNetwork = exampleNetwork\<lparr>scaleInfo := Some \<lparr> edgeWidthIdx = 0, edgeColourIdx = 0, nodeColourIdx = 0 \<rparr>\<rparr>"

definition nanMatrix :: matrix where
  "nanMatrix = [[Num 0, NaN, NaN], [NaN, Num 0, NaN], [NaN, NaN, Num 0]]"

definition nanNetwork :: "param network" where
  "nanNetwork = initNetwork [nanMatrix, exampleMatrix] [''m'', ''w''] [] [] None None noThreshold 0 1 0 1 3"

text \<open>The network of the two matrices with the \<^verbatim>\<open>scaleInfo\<close> object: its threshold matrix is
  the first one, which has no entry off the diagonal.\<close>

definition liveNanNetwork :: "param network" where
  "liveNanNetwork = nanNetwork\<lparr>scaleInfo := Some \<lparr> edgeWidthIdx = 0, edgeColourIdx = 0, nodeColourIdx = 0 \<rparr>\<rparr>"

section \<open>Notions used for the dendrogram\<close>

text \<open>A node without its \<^verbatim>\<open>parent\<close> field, and the relation between a network and the
  network after an operation that writes only the dendrogram: the \<^verbatim>\<open>parent\<close> fields of the
  nodes, the tree nodes, \<^verbatim>\<open>treeNodes\<close> and \<^verbatim>\<open>numClusters\<close>.\<close>

definition dropParent :: "node \<Rightarrow> node" where
  "dropParent n = n\<lparr>n_parent := None\<rparr>"

definition treeFrame :: "'p network \<Rightarrow> 'p network \<Rightarrow> bool" where
  "treeFrame net net' \<longleftrightarrow>
     (\<exists>ns h tn k si. net' = net\<lparr>nodes := ns, heap := h, treeNodes := tn, numClusters := k,
                               scaleInfo := si\<rparr> \<and>
        map dropParent ns = map dropParent (nodes net))"

text \<open>The network a call leaves behind, whether it returned or threw.\<close>

definition outcome :: "(error \<times> 's) + 's \<Rightarrow> 's" where
  "outcome r = (case r of Inl (e, s) \<Rightarrow> s | Inr s \<Rightarrow> s)"

text \<open>The networks that come out of a construction or of a re-threshold.\<close>

inductive afterThreshold :: "'p network \<Rightarrow> bool" where
  built: "thresholdNetwork st net = Inr net' \<Longrightarrow> afterThreshold net'"
| created: "createNetwork st ms mls nd ndls lk tu tf tv tvl ti nc = Some (Inr net') \<Longrightarrow> afterThreshold net'"
| value_set: "setThresholdValue st net idx v = Some (Inr net', st') \<Longrightarrow> afterThreshold net'"
| matrix_set: "setThresholdMatrix st net idx = Some (Inr net', st') \<Longrightarrow> afterThreshold net'"

text \<open>The criterion of the specification for the default threshold function, in the
  specification's words: entry \<open>(i, j)\<close> is suppressed when \<open>|m[i][j]| < rowMax_i * p\<close> or
  \<open>|m[j][i]| < rowMax_j * p\<close>, with \<open>rowMax_k\<close> the greatest absolute value of row \<open>k\<close>.\<close>

definition spec_suppressed :: "(jsval \<Rightarrow> 'p option \<Rightarrow> jsval) \<Rightarrow> matrix \<Rightarrow> 'p option \<Rightarrow> nat \<Rightarrow> nat \<Rightarrow> bool" where
  "spec_suppressed mul m p i j \<longleftrightarrow>
     js_lt (js_abs (m ! i ! j)) (mul (d3_max (map js_abs (m ! i))) p) \<or>
     js_lt (js_abs (m ! j ! i)) (mul (d3_max (map js_abs (m ! j))) p)"

text \<open>What the code tests for entry \<open>(i, j)\<close>: the entry's own absolute value against the
  thresholds of row \<open>i\<close> and of row \<open>j\<close>.\<close>

definition code_suppressed :: "(jsval \<Rightarrow> 'p option \<Rightarrow> jsval) \<Rightarrow> matrix \<Rightarrow> 'p option \<Rightarrow> nat \<Rightarrow> nat \<Rightarrow> bool" where
  "code_suppressed mul m p i j \<longleftrightarrow>
     js_lt (js_abs (m ! i ! j)) (mul (d3_max (map js_abs (m ! i))) p) \<or>
     (j < length m \<and> js_lt (js_abs (m ! i ! j)) (mul (d3_max (map js_abs (m ! j))) p))"

definition skewMatrix :: matrix where
  "skewMatrix = [[Num 0, Num 1], [Num 10, Num 0]]"

definition symMatrix :: matrix where
  "symMatrix = [[Num 0, Num 5, NaN, Num 2], [Num 5, Num 0, Num 1, NaN],
                [NaN, Num 1, Num 0, Num 3], [Num 2, NaN, Num 3, Num 0]]"


text \<open>The body of the \<^verbatim>\<open>forEach\<close> of \<^verbatim>\<open>flattenDendrogramTree\<close>, for one child.\<close>

definition reparentStep :: "nat \<Rightarrow> ref \<Rightarrow> 'p network \<Rightarrow> 'p network" where
  "reparentStep p child n = pushChild p child (setParent child p n)"

text \<open>The shape of the object graph that \<^verbatim>\<open>makeNetworkDendrogramTree\<close> builds and
  \<^verbatim>\<open>flattenDendrogramTree\<close> keeps: \<^verbatim>\<open>treeNodes\<close> lists distinct tree nodes; the parent of a
  node or of a listed tree node is a listed tree node that has it among its children;
  a listed tree node was created after its tree-node children and before its parent.\<close>

definition wfTree :: "'p network \<Rightarrow> bool" where
  "wfTree net \<longleftrightarrow>
     (\<exists>tns. treeNodes net = Some tns \<and> distinct tns \<and> (\<forall>t \<in> set tns. t < length (heap net)) \<and>
        (\<forall>k < length (nodes net). \<forall>q. n_parent (nodes net ! k) = Some q \<longrightarrow>
           q \<in> set tns \<and> NodeRef k \<in> set (t_children (heap net ! q))) \<and>
        (\<forall>t \<in> set tns. \<forall>q. t_parent (heap net ! t) = Some q \<longrightarrow>
           q \<in> set tns \<and> t < q \<and> TreeRef t \<in> set (t_children (heap net ! q))) \<and>
        (\<forall>t \<in> set tns. \<forall>c. TreeRef c \<in> set (t_children (heap net ! t)) \<longrightarrow> c < t))"



text \<open>Every node that has a parent is named as a leaf by a row of the linkage table. The
  nodes of a new network have no parent; a node gets a parent only as the child of a
  tree node, and the children of tree nodes come from the rows of the table.\<close>

definition parentsFromLinkage :: "'p network \<Rightarrow> jsval list list \<Rightarrow> bool" where
  "parentsFromLinkage net lk \<longleftrightarrow>
     (\<forall>k < length (nodes net). n_parent (nodes net ! k) \<noteq> None \<longrightarrow>
        (\<exists>row \<in> set lk. val_get row 0 = Num (real (k + 1)) \<or> val_get row 1 = Num (real (k + 1))))"

text \<open>The invariant of the loop of \<^verbatim>\<open>makeNetworkDendrogramTree\<close>, started on \<open>net0\<close>, after the
  rows \<open>rows\<close>: the tree nodes built so far have the shape above, and a node has its
  parent among them, or still the parent it started with and no row has named it.\<close>

definition buildInv :: "'p network \<Rightarrow> jsval list list \<Rightarrow> 'p network \<Rightarrow> nat list \<Rightarrow> bool" where
  "buildInv net0 rows net tns \<longleftrightarrow>
     length (nodes net) = length (nodes net0) \<and> distinct tns \<and>
     (\<forall>t \<in> set tns. t < length (heap net)) \<and>
     (\<forall>k < length (nodes net). \<forall>q. n_parent (nodes net ! k) = Some q \<longrightarrow>
        (q \<in> set tns \<and> NodeRef k \<in> set (t_children (heap net ! q))) \<or>
        (n_parent (nodes net0 ! k) = Some q \<and>
         (\<forall>row \<in> set rows. val_get row 0 \<noteq> Num (real (k + 1)) \<and> val_get row 1 \<noteq> Num (real (k + 1))))) \<and>
     (\<forall>t \<in> set tns. \<forall>q. t_parent (heap net ! t) = Some q \<longrightarrow>
        q \<in> set tns \<and> t < q \<and> TreeRef t \<in> set (t_children (heap net ! q))) \<and>
     (\<forall>t \<in> set tns. \<forall>c. TreeRef c \<in> set (t_children (heap net ! t)) \<longrightarrow> c < t)"

text \<open>A network of four nodes with the linkage table of a complete dendrogram, and a
  network without nodes whose linkage table is empty.\<close>

definition treeLinkage :: "jsval list list" where
  "treeLinkage = [[Num 1, Num 2, Num (1 / 10)], [Num 3, Num 4, Num (1 / 5)], [Num 5, Num 6, Num (3 / 10)]]"

definition fourNetwork :: "param network" where
  "fourNetwork = initNetwork [symMatrix] [''m''] [] [] (Some treeLinkage) None noThreshold 0 1 0 1 4"

definition noNodesNetwork :: "param network" where
  "noNodesNetwork = initNetwork [[]] [''m''] [] [] (Some []) None noThreshold 0 1 0 1 0"

text \<open>A network, a sub-network of it, a sub-network of that one, a threshold value set on
  the last, and then the first network's threshold value set to the value it holds. The
  result is the list of the node pairs of the first network's edges before the last call
  and after it.\<close>

definition sharedMatrix :: matrix where
  "sharedMatrix = [[Num 0, Num 10, Num 4], [Num 10, Num 0, Num 10], [Num 4, Num 10, Num 0]]"

definition edgePairs :: "'p network \<Rightarrow> (nat \<times> nat) list" where
  "edgePairs net = map (\<lambda>e. (e_i e, e_j e)) (edges net)"

definition sharedScenario :: "((nat \<times> nat) list \<times> (nat \<times> nat) list) option" where
  "sharedScenario =
     (case createNetwork exampleStore [sharedMatrix] [''m''] [] [] None None
             (thresholdMatrix paramTimes) 0 1 0 1 of
        Some (Inr n) \<Rightarrow>
          (case extractSubNetwork exampleStore n 1 of
             Some (Inr s1) \<Rightarrow>
               (case extractSubNetwork exampleStore s1 0 of
                  Some (Inr s2) \<Rightarrow>
                    (case setThresholdValue exampleStore s2 0 (Some (PNum (Num (1 / 10)))) of
                       Some (Inr s2', st') \<Rightarrow>
                         (case setThresholdValue st' n 0 (opt_get (st' ! thresholdValues n) 0) of
                            Some (Inr n', st'') \<Rightarrow> Some (edgePairs n, edgePairs n')
                          | _ \<Rightarrow> None)
                     | _ \<Rightarrow> None)
                | _ \<Rightarrow> None)
           | _ \<Rightarrow> None)
      | _ \<Rightarrow> None)"

text \<open>The sorted list \<^verbatim>\<open>nodeIdxs\<close> of \<^verbatim>\<open>extractSubNetwork\<close>: the root index and the indices of
  the root's neighbours.\<close>

definition subNodeIdxs :: "'p network \<Rightarrow> nat \<Rightarrow> nat list" where
  "subNodeIdxs net rootIdx =
     sort (rootIdx # map (\<lambda>nb. n_index (nodes net ! nb)) (n_neighbours (nodes net ! rootIdx)))"

text \<open>The induced subgraph of the spec: the pairs \<open>a < b\<close> of nodes of the sub-network whose
  nodes in the parent network, found by the stored index, are joined by an edge of the
  parent network.\<close>

definition inducedEdges :: "'p network \<Rightarrow> 'p network \<Rightarrow> (nat \<times> nat) list" where
  "inducedEdges net sub =
     filter (\<lambda>p. \<exists>e \<in> set (edges net). n_fullNetIndex (nodes sub ! fst p) = Some (e_i e) \<and>
                                        n_fullNetIndex (nodes sub ! snd p) = Some (e_j e))
       (pairs (length (nodes sub)))"

text \<open>The network of \<open>sharedMatrix\<close> and its sub-network at a root: the names and the stored
  indices of the sub-network's nodes, the induced subgraph and the edges of the
  sub-network.\<close>

definition subScenario ::
  "nat \<Rightarrow> (string list \<times> nat option list \<times> (nat \<times> nat) list \<times> (nat \<times> nat) list) option" where
  "subScenario rootIdx =
     (case createNetwork exampleStore [sharedMatrix] [''m''] [] [] None None (thresholdMatrix paramTimes) 0 1 0 1 of
        Some (Inr n) \<Rightarrow>
          (case extractSubNetwork exampleStore n rootIdx of
             Some (Inr s) \<Rightarrow> Some (map n_name (nodes s), map n_fullNetIndex (nodes s),
                                   inducedEdges n s, edgePairs s)
           | _ \<Rightarrow> None)
      | _ \<Rightarrow> None)"

section \<open>Properties of the loops\<close>


lemma foldE_append:
  "foldE f (xs @ ys) s = (case foldE f xs s of Inl e \<Rightarrow> Inl e | Inr s' \<Rightarrow> foldE f ys s')"
  by (induction xs arbitrary: s) (auto split: sum.splits)

lemma foldE_concat:
  "foldE (\<lambda>i. foldE (g i) (js i)) is s =
   foldE (\<lambda>p. g (fst p) (snd p)) (concat (map (\<lambda>i. map (Pair i) (js i)) is)) s"
proof (induction "is" arbitrary: s)
  case Nil
  show ?case by simp
next
  case (Cons i "is")
  have inner: "foldE (\<lambda>p. g (fst p) (snd p)) (map (Pair i) xs) t = foldE (g i) xs t" for xs t
    by (induction xs arbitrary: t) (auto split: sum.splits)
  show ?case
    by (simp add: foldE_append inner Cons.IH split: sum.splits)
qed

lemma foldE_id:
  "(\<And>x. x \<in> set xs \<Longrightarrow> f x s = Inr s) \<Longrightarrow> foldE f xs s = Inr s"
  by (induction xs) auto

lemma mapE_Inr: "mapE f xs = Inr ys \<longleftrightarrow> map f xs = map Inr ys"
proof (induction xs arbitrary: ys)
  case Nil
  show ?case by auto
next
  case (Cons x xs)
  show ?case
    by (cases ys) (auto simp: Cons.IH[symmetric] split: sum.splits)
qed

lemma set_pairs: "set (pairs n) = {(i, j). i < j \<and> j < n}"
  by (fastforce simp: pairs_def)

lemma distinct_pair_lists:
  "distinct is \<Longrightarrow> (\<And>i. distinct (js i)) \<Longrightarrow>
   distinct (concat (map (\<lambda>i. map (Pair i) (js i)) is))"
  by (induction "is") (auto simp: distinct_map inj_on_def)

lemma distinct_pairs: "distinct (pairs n)"
  unfolding pairs_def by (rule distinct_pair_lists) auto

lemma outerLoop_pairs:
  "outerLoop T n s = foldE (\<lambda>p. edgeStep T (fst p) (snd p)) (pairs n) s"
  unfolding outerLoop_def innerLoop_def pairs_def
  by (rule foldE_concat)

lemma edgeStep_readable:
  assumes "edgeStep T i j (net, st) = Inr (net', st')"
  shows "readable T (matrices net) (i, j)"
proof -
  from assms obtain v where v: "arr_get2 T i j = Inr v"
    by (auto simp: edgeStep_def split: sum.splits)
  then have iT: "i < length T" and e: "entry T i j = v"
    by (auto simp: arr_get2_def arr_get_def entry_def split: if_splits option.splits)
  show "readable T (matrices net) (i, j)"
  proof (cases "isNaN v")
    case True
    then show ?thesis using iT e by (simp add: readable_def kept_def)
  next
    case False
    with assms v obtain ws where ws: "mapE (\<lambda>mat. arr_get2 mat i j) (matrices net) = Inr ws"
      by (auto simp: edgeStep_def split: sum.splits)
    then have "map (\<lambda>mat. arr_get2 mat i j) (matrices net) = map Inr ws"
      by (simp add: mapE_Inr)
    then have "\<forall>m \<in> set (matrices net). \<exists>w. arr_get2 m i j = Inr w"
      by (metis (no_types, lifting) imageE image_eqI list.set_map)
    then have "\<forall>m \<in> set (matrices net). i < length m"
      by (auto simp: arr_get2_def arr_get_def split: if_splits option.splits)
    then show ?thesis using iT by (simp add: readable_def)
  qed
qed

lemma nbrsOf_append: "nbrsOf a (xs @ ys) = nbrsOf a xs @ nbrsOf a ys"
  by (simp add: nbrsOf_def)

lemma set_nbrsOf:
  "set (nbrsOf a es) = {b. \<exists>e \<in> set es. (e_i e = a \<and> e_j e = b) \<or> (e_j e = a \<and> e_i e = b)}"
  by (auto simp: nbrsOf_def split: if_splits)

lemma length_pushNeighbour [simp]: "length (pushNeighbour a b ns) = length ns"
  by (simp add: pushNeighbour_def)

lemma length_pushEdge [simp]: "length (pushEdge a b ns) = length ns"
  by (simp add: pushEdge_def)

lemma clear_pushNeighbour [simp]: "map clearNode (pushNeighbour a b ns) = map clearNode ns"
  by (cases "a < length ns")
     (auto simp: pushNeighbour_def nth_list_update clearNode_def intro!: nth_equalityI)

lemma clear_pushEdge [simp]: "map clearNode (pushEdge a b ns) = map clearNode ns"
  by (cases "a < length ns")
     (auto simp: pushEdge_def nth_list_update clearNode_def intro!: nth_equalityI)

lemma nbrs_pushNeighbour:
  "c < length ns \<Longrightarrow> n_neighbours (pushNeighbour a b ns ! c) =
     n_neighbours (ns ! c) @ (if c = a then [b] else [])"
  by (cases "c = a") (simp_all add: pushNeighbour_def)

lemma nbrs_pushEdge [simp]:
  "c < length ns \<Longrightarrow> n_neighbours (pushEdge a b ns ! c) = n_neighbours (ns ! c)"
  by (cases "c = a") (simp_all add: pushEdge_def)

lemma edgeStep_cases:
  assumes "edgeStep T i j (net, st) = Inr (net', st')"
  obtains (skip) "\<not> kept T (i, j)" "net' = net" "st' = st"
  | (add) "kept T (i, j)"
      "net' = net\<lparr>edges := edges net @ [mkEdge (matrices net) (i, j)],
                  nodes := pushEdge j (length (edges net)) (pushEdge i (length (edges net))
                             (pushNeighbour j i (pushNeighbour i j (nodes net))))\<rparr>"
      "st' = updateStats (e_weights (mkEdge (matrices net) (i, j))) st"
proof -
  from assms obtain v where v: "arr_get2 T i j = Inr v"
    by (auto simp: edgeStep_def split: sum.splits)
  then have e: "entry T i j = v"
    by (simp add: entry_def)
  show thesis
  proof (cases "isNaN v")
    case True
    then show ?thesis using assms v e skip by (simp add: edgeStep_def kept_def)
  next
    case False
    with assms v obtain ws where ws: "mapE (\<lambda>mat. arr_get2 mat i j) (matrices net) = Inr ws"
      by (auto simp: edgeStep_def split: sum.splits)
    then have m: "map (\<lambda>mat. arr_get2 mat i j) (matrices net) = map Inr ws"
      by (simp add: mapE_Inr)
    have "map (\<lambda>m. entry m i j) (matrices net)
            = map (\<lambda>r. case r of Inl e \<Rightarrow> Undefined | Inr v \<Rightarrow> v) (map (\<lambda>mat. arr_get2 mat i j) (matrices net))"
      by (simp add: entry_def comp_def)
    also have "\<dots> = ws" unfolding m by (simp add: comp_def)
    finally have w: "ws = map (\<lambda>m. entry m i j) (matrices net)" by simp
    show ?thesis
    proof (rule add)
      show "kept T (i, j)" using False e by (simp add: kept_def)
      show "net' = net\<lparr>edges := edges net @ [mkEdge (matrices net) (i, j)],
                  nodes := pushEdge j (length (edges net)) (pushEdge i (length (edges net))
                             (pushNeighbour j i (pushNeighbour i j (nodes net))))\<rparr>"
        using assms v False ws w by (auto simp: edgeStep_def mkEdge_def Let_def)
      show "st' = updateStats (e_weights (mkEdge (matrices net) (i, j))) st"
        using assms v False ws w by (auto simp: edgeStep_def mkEdge_def Let_def)
    qed
  qed
qed

lemma edgeStep_frame:
  assumes "edgeStep T i j (net, st) = Inr (net', st')"
  shows "\<exists>ns. net' = net\<lparr>edges := edges net @ (if kept T (i, j) then [mkEdge (matrices net) (i, j)] else []),
                          nodes := ns\<rparr>"
  using assms
proof (cases rule: edgeStep_cases)
  case skip
  then have "net' = net\<lparr>edges := edges net @ (if kept T (i, j) then [mkEdge (matrices net) (i, j)] else []),
                          nodes := nodes net\<rparr>" by simp
  then show ?thesis ..
next
  case add
  then show ?thesis by auto
qed

lemma edgeStep_nodes:
  assumes "edgeStep T i j (net, st) = Inr (net', st')"
    and "i < length (nodes net)" and "j < length (nodes net)" and "i \<noteq> j"
  shows "length (nodes net') = length (nodes net) \<and>
    map clearNode (nodes net') = map clearNode (nodes net) \<and>
    (\<forall>a<length (nodes net). n_neighbours (nodes net' ! a) =
        n_neighbours (nodes net ! a) @
        nbrsOf a (if kept T (i, j) then [mkEdge (matrices net) (i, j)] else [])) \<and>
    st' = (if kept T (i, j) then updateStats (e_weights (mkEdge (matrices net) (i, j))) st else st)"
  using assms(1)
proof (cases rule: edgeStep_cases)
  case skip
  then show ?thesis
    by (simp add: nbrsOf_def)
next
  case add
  then show ?thesis
    using assms(2-4)
    by (auto simp: nbrs_pushNeighbour nbrsOf_def mkEdge_def)
qed


lemma pairs_loop:
  assumes "foldE (\<lambda>p. edgeStep T (fst p) (snd p)) ps (net, st) = Inr (net', st')"
    and "\<forall>p \<in> set ps. fst p < length (nodes net) \<and> snd p < length (nodes net) \<and> fst p \<noteq> snd p"
  shows "(\<exists>ns. net' = net\<lparr>edges := edges net @ map (mkEdge (matrices net)) (filter (kept T) ps),
                    nodes := ns\<rparr>) \<and>
    (\<forall>p \<in> set ps. readable T (matrices net) p) \<and>
    length (nodes net') = length (nodes net) \<and>
    map clearNode (nodes net') = map clearNode (nodes net) \<and>
    (\<forall>a<length (nodes net). n_neighbours (nodes net' ! a) =
        n_neighbours (nodes net ! a) @ nbrsOf a (map (mkEdge (matrices net)) (filter (kept T) ps))) \<and>
    st' = fold (\<lambda>p. updateStats (e_weights (mkEdge (matrices net) p))) (filter (kept T) ps) st"
  using assms
proof (induction ps arbitrary: net st)
  case Nil
  then have "net' = net\<lparr>edges := edges net @ map (mkEdge (matrices net)) (filter (kept T) []),
                    nodes := nodes net\<rparr>" by simp
  then have "\<exists>ns. net' = net\<lparr>edges := edges net @ map (mkEdge (matrices net)) (filter (kept T) []),
                    nodes := ns\<rparr>" ..
  then show ?case using Nil by (simp add: nbrsOf_def)
next
  case (Cons p ps)
  from Cons.prems(1) obtain net1 st1
    where step: "edgeStep T (fst p) (snd p) (net, st) = Inr (net1, st1)"
      and rest: "foldE (\<lambda>p. edgeStep T (fst p) (snd p)) ps (net1, st1) = Inr (net', st')"
    by (auto split: sum.splits)
  from Cons.prems(2) have p: "fst p < length (nodes net)" "snd p < length (nodes net)" "fst p \<noteq> snd p"
    by simp_all
  note s1 = edgeStep_readable[OF step] and s2 = edgeStep_nodes[OF step p]
  from edgeStep_frame[OF step, unfolded prod.collapse] obtain ns1
    where n1: "net1 = net\<lparr>edges := edges net @ (if kept T p then [mkEdge (matrices net) p] else []),
                          nodes := ns1\<rparr>" by blast
  then have m1: "matrices net1 = matrices net" by simp
  from s2 have l1: "length (nodes net1) = length (nodes net)" by simp
  from Cons.prems(2) l1
  have "\<forall>p \<in> set ps. fst p < length (nodes net1) \<and> snd p < length (nodes net1) \<and> fst p \<noteq> snd p"
    by simp
  note ih = Cons.IH[OF rest this, unfolded m1 l1]
  from ih obtain ns where "net' = net1\<lparr>edges := edges net1 @ map (mkEdge (matrices net)) (filter (kept T) ps),
                    nodes := ns\<rparr>" by blast
  then have "net' = net\<lparr>edges := edges net @ map (mkEdge (matrices net)) (filter (kept T) (p # ps)),
                    nodes := ns\<rparr>"
    by (simp add: n1)
  then have "\<exists>ns. net' = net\<lparr>edges := edges net @ map (mkEdge (matrices net)) (filter (kept T) (p # ps)),
                    nodes := ns\<rparr>" ..
  moreover have "\<forall>q \<in> set (p # ps). readable T (matrices net) q"
    using ih s1 by simp
  moreover have "length (nodes net') = length (nodes net)"
    using ih by simp
  moreover have "map clearNode (nodes net') = map clearNode (nodes net)"
    using ih s2 by simp
  moreover have "\<forall>a<length (nodes net). n_neighbours (nodes net' ! a) =
        n_neighbours (nodes net ! a) @ nbrsOf a (map (mkEdge (matrices net)) (filter (kept T) (p # ps)))"
    using ih s2 by (simp add: nbrsOf_def)
  moreover have "st' = fold (\<lambda>p. updateStats (e_weights (mkEdge (matrices net) p))) (filter (kept T) (p # ps)) st"
    using ih s2 by simp
  ultimately show ?case by blast
qed

lemma edgeStep_total:
  assumes "readable T (matrices net) (i, j)"
  shows "\<exists>s'. edgeStep T i j (net, st) = Inr s'"
proof -
  from assms obtain v where v: "arr_get2 T i j = Inr v"
    by (auto simp: readable_def arr_get2_def arr_get_def)
  then have e: "entry T i j = v" by (simp add: entry_def)
  show ?thesis
  proof (cases "isNaN v")
    case True
    then show ?thesis using v by (simp add: edgeStep_def)
  next
    case False
    with e assms have "\<forall>m \<in> set (matrices net). i < length m"
      by (simp add: readable_def kept_def)
    then have "map (\<lambda>mat. arr_get2 mat i j) (matrices net) = map Inr (map (\<lambda>m. val_get (m ! i) j) (matrices net))"
      by (simp add: arr_get2_def arr_get_def)
    then have "mapE (\<lambda>mat. arr_get2 mat i j) (matrices net) = Inr (map (\<lambda>m. val_get (m ! i) j) (matrices net))"
      by (simp add: mapE_Inr)
    then show ?thesis using v False by (simp add: edgeStep_def Let_def)
  qed
qed

lemma pairs_loop_total:
  assumes "\<forall>p \<in> set ps. readable T (matrices net) p"
  shows "\<exists>s'. foldE (\<lambda>p. edgeStep T (fst p) (snd p)) ps (net, st) = Inr s'"
  using assms
proof (induction ps arbitrary: net st)
  case Nil
  then show ?case by simp
next
  case (Cons p ps)
  then have "readable T (matrices net) (fst p, snd p)" by simp
  from edgeStep_total[OF this] obtain net1 st1
    where step: "edgeStep T (fst p) (snd p) (net, st) = Inr (net1, st1)"
    by (metis surj_pair)
  from edgeStep_frame[OF step] have m1: "matrices net1 = matrices net"
    by auto
  with Cons.prems have "\<forall>p \<in> set ps. readable T (matrices net1) p" by simp
  from Cons.IH[OF this] show ?case using step by simp
qed


lemma pairs_loop_Inl_frame:
  assumes "foldE (\<lambda>p. edgeStep T (fst p) (snd p)) ps (net, st) = Inl (err, net', st')"
  shows "\<exists>es ns. net' = net\<lparr>edges := es, nodes := ns\<rparr>"
  using assms
proof (induction ps arbitrary: net st)
  case Nil
  then show ?case by simp
next
  case (Cons p ps)
  show ?case
  proof (cases "edgeStep T (fst p) (snd p) (net, st)")
    case (Inl a)
    with Cons.prems have "a = (err, net', st')" by simp
    with Inl have "net' = net"
      by (auto simp: edgeStep_def Let_def split: sum.splits if_splits)
    then have "net' = net\<lparr>edges := edges net, nodes := nodes net\<rparr>" by simp
    then show ?thesis by blast
  next
    case (Inr b)
    obtain net1 st1 where b: "b = (net1, st1)" by (cases b)
    from edgeStep_frame[OF Inr[unfolded b]] obtain es1 ns1
      where n1: "net1 = net\<lparr>edges := es1, nodes := ns1\<rparr>" by blast
    from Cons.prems Inr b have "foldE (\<lambda>p. edgeStep T (fst p) (snd p)) ps (net1, st1) = Inl (err, net', st')"
      by simp
    from Cons.IH[OF this] obtain es ns where "net' = net1\<lparr>edges := es, nodes := ns\<rparr>" by blast
    then have "net' = net\<lparr>edges := es, nodes := ns\<rparr>" by (simp add: n1)
    then show ?thesis by blast
  qed
qed

lemma pairs_valid: "\<forall>p \<in> set (pairs n). fst p < n \<and> snd p < n \<and> fst p \<noteq> snd p"
  by (auto simp: set_pairs)

lemma thresholdNetwork_Inr:
  assumes "thresholdNetwork st net = Inr net'"
  obtains T ns where "thresholded st net = Inr T"
    and "net' = net\<lparr>nodes := ns,
                    edges := map (mkEdge (matrices net)) (filter (kept T) (pairs (length (nodes net)))),
                    matrixMins := s_mins (finalStats T (matrices net) (length (nodes net))),
                    matrixMaxs := s_maxs (finalStats T (matrices net) (length (nodes net))),
                    matrixAbsMins := s_absMins (finalStats T (matrices net) (length (nodes net))),
                    matrixAbsMaxs := s_absMaxs (finalStats T (matrices net) (length (nodes net)))\<rparr>"
    and "\<forall>p \<in> set (pairs (length (nodes net))). readable T (matrices net) p"
    and "length ns = length (nodes net)"
    and "map clearNode ns = map clearNode (nodes net)"
    and "\<forall>a<length (nodes net). n_neighbours (ns ! a) = nbrsOf a (edges net')"
proof -
  let ?n = "length (nodes net)"
  let ?net2 = "net\<lparr>edges := [], nodes := map clearNode (nodes net)\<rparr>"
  from assms obtain T where T: "thresholded st net = Inr T"
    by (auto simp: thresholdNetwork_def thresholded_def Let_def split: sum.splits)
  with assms obtain net3 st3
    where loop: "outerLoop T ?n (?net2, initStats (length (matrices net))) = Inr (net3, st3)"
      and net': "net' = net3\<lparr>matrixMins := s_mins st3, matrixMaxs := s_maxs st3,
                            matrixAbsMins := s_absMins st3, matrixAbsMaxs := s_absMaxs st3\<rparr>"
    by (auto simp: thresholdNetwork_def thresholded_def Let_def split: sum.splits prod.splits)
  have valid: "\<forall>p \<in> set (pairs ?n). fst p < length (nodes ?net2) \<and> snd p < length (nodes ?net2) \<and> fst p \<noteq> snd p"
    using pairs_valid[of ?n] by simp
  note pl = pairs_loop[OF loop[unfolded outerLoop_pairs] valid]
  from pl obtain ns where n3: "net3 = ?net2\<lparr>edges := edges ?net2 @
        map (mkEdge (matrices ?net2)) (filter (kept T) (pairs ?n)), nodes := ns\<rparr>" by blast
  then have ns: "nodes net3 = ns" by simp
  have st3: "st3 = finalStats T (matrices net) ?n"
    using pl by (simp add: finalStats_def)
  show thesis
  proof (rule that[of T ns])
    show "thresholded st net = Inr T" by (rule T)
    show "net' = net\<lparr>nodes := ns,
                    edges := map (mkEdge (matrices net)) (filter (kept T) (pairs ?n)),
                    matrixMins := s_mins (finalStats T (matrices net) ?n),
                    matrixMaxs := s_maxs (finalStats T (matrices net) ?n),
                    matrixAbsMins := s_absMins (finalStats T (matrices net) ?n),
                    matrixAbsMaxs := s_absMaxs (finalStats T (matrices net) ?n)\<rparr>"
      by (simp add: net' n3 st3)
    show "\<forall>p \<in> set (pairs ?n). readable T (matrices net) p"
      using pl by simp
    show "length ns = ?n" using pl ns by simp
    show "map clearNode ns = map clearNode (nodes net)"
      using pl ns by (simp add: clearNode_def comp_def)
    show "\<forall>a<?n. n_neighbours (ns ! a) = nbrsOf a (edges net')"
      using pl ns by (simp add: net' n3 clearNode_def)
  qed
qed

lemma thresholdNetwork_total:
  assumes "thresholded st net = Inr T"
    and "\<forall>p \<in> set (pairs (length (nodes net))). readable T (matrices net) p"
  shows "\<exists>net'. thresholdNetwork st net = Inr net'"
proof -
  let ?net2 = "net\<lparr>edges := [], nodes := map clearNode (nodes net)\<rparr>"
  from assms(2) have "\<forall>p \<in> set (pairs (length (nodes net))). readable T (matrices ?net2) p" by simp
  from pairs_loop_total[OF this]
  obtain s' where "outerLoop T (length (nodes net)) (?net2, initStats (length (matrices net))) = Inr s'"
    unfolding outerLoop_pairs by blast
  then show ?thesis using assms(1)
    by (cases s') (simp add: thresholdNetwork_def thresholded_def Let_def)
qed

lemma thresholdNetwork_Inl_frame:
  assumes "thresholdNetwork st net = Inl (err, net')"
  shows "\<exists>es ns. net' = net\<lparr>edges := es, nodes := ns\<rparr>"
proof (cases "thresholded st net")
  case (Inl e)
  with assms have "net' = net\<lparr>edges := [], nodes := nodes net\<rparr>"
    by (auto simp: thresholdNetwork_def thresholded_def Let_def)
  then show ?thesis by blast
next
  case (Inr T)
  let ?net2 = "net\<lparr>edges := [], nodes := map clearNode (nodes net)\<rparr>"
  from assms Inr obtain st' where
    "outerLoop T (length (nodes net)) (?net2, initStats (length (matrices net))) = Inl (err, net', st')"
    by (auto simp: thresholdNetwork_def thresholded_def Let_def split: sum.splits prod.splits)
  from pairs_loop_Inl_frame[OF this[unfolded outerLoop_pairs]]
  obtain es ns where "net' = ?net2\<lparr>edges := es, nodes := ns\<rparr>" by blast
  then have "net' = net\<lparr>edges := es, nodes := ns\<rparr>" by simp
  then show ?thesis by blast
qed

section \<open>The graph builder\<close>


lemmas eval_defs = thresholdNetwork_def initNetwork_def newNode_def
  arr_get_int_def outerLoop_def innerLoop_def edgeStep_def arr_get2_def arr_get_def val_get_def
  isNaN_def upt_rec clearNode_def pushNeighbour_def pushEdge_def initStats_def updateStats_def
  updMin_def updMax_def js_gt_def Let_def

lemma ij_mkEdge: "(e_i (mkEdge ms p), e_j (mkEdge ms p)) = p"
  by (simp add: mkEdge_def)

lemma arr_get2_entry: "i < length m \<Longrightarrow> arr_get2 m i j = Inr (entry m i j)"
  by (simp add: entry_def arr_get2_def arr_get_def)

lemma lt3: "(i::nat) < 3 \<longleftrightarrow> i = 0 \<or> i = 1 \<or> i = 2"
  by auto

text \<open>
  C1. When the graph builder returns, there is an edge for a pair \<open>i < j\<close> of nodes exactly
  when the entry \<open>[i][j]\<close> of the thresholded matrix is not \<^verbatim>\<open>NaN\<close>; every edge joins such
  a pair, no pair has two edges, and the weight vector of an edge has one entry per
  matrix, the entry \<open>[i][j]\<close> of that matrix. On the already thresholded example matrix the
  builder gives the edge \<open>(0, 1)\<close> with weight 5 and the edge \<open>(1, 2)\<close> with weight 1, the
  neighbours 1 to node 0 and the neighbours 0 and 2 to node 1.
\<close>

theorem graph_builder_edges:
  assumes "thresholdNetwork st net = Inr net'"
  shows "(\<exists>T. thresholdFunc net (arr_get_int (matrices net) (thresholdIdx net)) (st ! thresholdValues net) = Inr T \<and>
            (\<forall>i j. i < j \<and> j < length (nodes net) \<longrightarrow>
               (\<exists>v. arr_get2 T i j = Inr v \<and>
                    ((\<exists>e \<in> set (edges net'). e_i e = i \<and> e_j e = j) \<longleftrightarrow> \<not> isNaN v)))) \<and>
         (\<forall>e \<in> set (edges net'). e_i e < e_j e \<and> e_j e < length (nodes net) \<and>
            length (e_weights e) = length (matrices net) \<and>
            (\<forall>k < length (matrices net).
               arr_get2 (matrices net ! k) (e_i e) (e_j e) = Inr (e_weights e ! k))) \<and>
         distinct (map (\<lambda>e. (e_i e, e_j e)) (edges net')) \<and>
         (case thresholdNetwork emptyStore exampleNetwork of
            Inl err \<Rightarrow> False
          | Inr n \<Rightarrow>
              edges n = [\<lparr>e_i = 0, e_j = 1, e_source = 0, e_target = 1, e_weights = [Num 5]\<rparr>,
                         \<lparr>e_i = 1, e_j = 2, e_source = 1, e_target = 2, e_weights = [Num 1]\<rparr>] \<and>
              n_neighbours (nodes n ! 0) = [1] \<and> n_neighbours (nodes n ! 1) = [0, 2])"
proof -
  let ?N = "length (nodes net)"
  let ?ms = "matrices net"
  from assms obtain T ns where T: "thresholded st net = Inr T"
    and net': "net' = net\<lparr>nodes := ns,
                    edges := map (mkEdge ?ms) (filter (kept T) (pairs ?N)),
                    matrixMins := s_mins (finalStats T ?ms ?N),
                    matrixMaxs := s_maxs (finalStats T ?ms ?N),
                    matrixAbsMins := s_absMins (finalStats T ?ms ?N),
                    matrixAbsMaxs := s_absMaxs (finalStats T ?ms ?N)\<rparr>"
    and rd: "\<forall>p \<in> set (pairs ?N). readable T ?ms p"
    by (rule thresholdNetwork_Inr)
  have es: "edges net' = map (mkEdge ?ms) (filter (kept T) (pairs ?N))"
    by (simp add: net')
  have a: "\<forall>i j. i < j \<and> j < ?N \<longrightarrow>
               (\<exists>v. arr_get2 T i j = Inr v \<and>
                    ((\<exists>e \<in> set (edges net'). e_i e = i \<and> e_j e = j) \<longleftrightarrow> \<not> isNaN v))"
  proof (intro allI impI)
    fix i j assume ij: "i < j \<and> j < ?N"
    then have p: "(i, j) \<in> set (pairs ?N)" by (simp add: set_pairs)
    with rd have "i < length T" by (auto simp: readable_def)
    then have r: "arr_get2 T i j = Inr (entry T i j)" by (rule arr_get2_entry)
    have "(\<exists>e \<in> set (edges net'). e_i e = i \<and> e_j e = j) \<longleftrightarrow> kept T (i, j)"
    proof
      assume "\<exists>e \<in> set (edges net'). e_i e = i \<and> e_j e = j"
      then obtain q where "q \<in> set (pairs ?N)" "kept T q" "e_i (mkEdge ?ms q) = i" "e_j (mkEdge ?ms q) = j"
        by (auto simp: es)
      then show "kept T (i, j)" using ij_mkEdge[of ?ms q] by simp
    next
      assume "kept T (i, j)"
      with p have "mkEdge ?ms (i, j) \<in> set (edges net')" by (simp add: es)
      moreover have "e_i (mkEdge ?ms (i, j)) = i \<and> e_j (mkEdge ?ms (i, j)) = j"
        by (simp add: mkEdge_def)
      ultimately show "\<exists>e \<in> set (edges net'). e_i e = i \<and> e_j e = j" by blast
    qed
    then show "\<exists>v. arr_get2 T i j = Inr v \<and>
                    ((\<exists>e \<in> set (edges net'). e_i e = i \<and> e_j e = j) \<longleftrightarrow> \<not> isNaN v)"
      using r by (simp add: kept_def)
  qed
  have b: "\<forall>e \<in> set (edges net'). e_i e < e_j e \<and> e_j e < ?N \<and>
            length (e_weights e) = length ?ms \<and>
            (\<forall>k < length ?ms. arr_get2 (?ms ! k) (e_i e) (e_j e) = Inr (e_weights e ! k))"
  proof
    fix e assume "e \<in> set (edges net')"
    then obtain q where q: "q \<in> set (pairs ?N)" "kept T q" and e: "e = mkEdge ?ms q"
      by (auto simp: es)
    from q(1) have "fst q < snd q" "snd q < ?N" by (auto simp: set_pairs)
    moreover from rd q have "\<forall>m \<in> set ?ms. fst q < length m" by (auto simp: readable_def)
    then have "\<forall>k < length ?ms. arr_get2 (?ms ! k) (fst q) (snd q) = Inr (entry (?ms ! k) (fst q) (snd q))"
      by (simp add: arr_get2_entry)
    ultimately show "e_i e < e_j e \<and> e_j e < ?N \<and>
            length (e_weights e) = length ?ms \<and>
            (\<forall>k < length ?ms. arr_get2 (?ms ! k) (e_i e) (e_j e) = Inr (e_weights e ! k))"
      by (simp add: e mkEdge_def)
  qed
  have "map (\<lambda>e. (e_i e, e_j e)) (edges net') = filter (kept T) (pairs ?N)"
    by (simp add: es comp_def ij_mkEdge)
  then have c: "distinct (map (\<lambda>e. (e_i e, e_j e)) (edges net'))"
    by (simp add: distinct_pairs)
  have d: "(case thresholdNetwork emptyStore exampleNetwork of
            Inl err \<Rightarrow> False
          | Inr n \<Rightarrow>
              edges n = [\<lparr>e_i = 0, e_j = 1, e_source = 0, e_target = 1, e_weights = [Num 5]\<rparr>,
                         \<lparr>e_i = 1, e_j = 2, e_source = 1, e_target = 2, e_weights = [Num 1]\<rparr>] \<and>
              n_neighbours (nodes n ! 0) = [1] \<and> n_neighbours (nodes n ! 1) = [0, 2])"
    by (simp add: exampleNetwork_def exampleMatrix_def noThreshold_def eval_defs)
  from T a b c d show ?thesis unfolding thresholded_def by blast
qed

theorem graph_builder_edges_witness:
  "\<exists>net'. thresholdNetwork emptyStore exampleNetwork = Inr net' \<and>
     (\<exists>e \<in> set (edges net'). e_i e = 0 \<and> e_j e = 1) \<and>
     \<not> (\<exists>e \<in> set (edges net'). e_i e = 0 \<and> e_j e = 2) \<and>
     (\<forall>e \<in> set (edges net'). e_i e < e_j e \<and> e_j e < 3 \<and> length (e_weights e) = 1)"
proof -
  obtain net' where r: "thresholdNetwork emptyStore exampleNetwork = Inr net'"
    by (simp add: exampleNetwork_def exampleMatrix_def noThreshold_def eval_defs)
  have T: "thresholdFunc exampleNetwork (arr_get_int (matrices exampleNetwork) (thresholdIdx exampleNetwork))
             (emptyStore ! thresholdValues exampleNetwork) = Inr exampleMatrix"
    by (simp add: exampleNetwork_def initNetwork_def noThreshold_def arr_get_int_def)
  have n: "length (nodes exampleNetwork) = 3" "length (matrices exampleNetwork) = 1"
    by (simp_all add: exampleNetwork_def initNetwork_def)
  note g = graph_builder_edges[OF r, unfolded T n]
  from g have "\<forall>i j. i < j \<and> j < 3 \<longrightarrow>
               (\<exists>v. arr_get2 exampleMatrix i j = Inr v \<and>
                    ((\<exists>e \<in> set (edges net'). e_i e = i \<and> e_j e = j) \<longleftrightarrow> \<not> isNaN v))"
    by blast
  then have "(\<exists>v. arr_get2 exampleMatrix 0 1 = Inr v \<and>
                    ((\<exists>e \<in> set (edges net'). e_i e = 0 \<and> e_j e = 1) \<longleftrightarrow> \<not> isNaN v))"
     and "(\<exists>v. arr_get2 exampleMatrix 0 2 = Inr v \<and>
                    ((\<exists>e \<in> set (edges net'). e_i e = 0 \<and> e_j e = 2) \<longleftrightarrow> \<not> isNaN v))"
    by simp_all
  then have "(\<exists>e \<in> set (edges net'). e_i e = 0 \<and> e_j e = 1)"
    and "\<not> (\<exists>e \<in> set (edges net'). e_i e = 0 \<and> e_j e = 2)"
    by (simp_all add: exampleMatrix_def arr_get2_def arr_get_def val_get_def isNaN_def)
  moreover from g have "\<forall>e \<in> set (edges net'). e_i e < e_j e \<and> e_j e < 3 \<and> length (e_weights e) = 1"
    by blast
  ultimately show ?thesis using r by blast
qed

text \<open>
  C9. When the thresholded matrix is \<^verbatim>\<open>NaN\<close> at every entry off the diagonal, the graph
  builder returns, creates no edge, and leaves every statistic at the value it was
  initialised with: \<^verbatim>\<open>Number.MAX_VALUE\<close> for the minimum and the absolute minimum,
  \<^verbatim>\<open>-Number.MAX_VALUE\<close> for the maximum and the absolute maximum, one per matrix.
\<close>

theorem no_edges_sentinels:
  assumes "thresholdFunc net (arr_get_int (matrices net) (thresholdIdx net)) (st ! thresholdValues net) = Inr T"
    and "\<forall>i j. i < length (nodes net) \<and> j < length (nodes net) \<and> i \<noteq> j \<longrightarrow> arr_get2 T i j = Inr NaN"
  shows "\<exists>net'. thresholdNetwork st net = Inr net' \<and> edges net' = [] \<and>
           matrixMins net' = replicate (length (matrices net)) (Num MAX_VALUE) \<and>
           matrixMaxs net' = replicate (length (matrices net)) (Num (- MAX_VALUE)) \<and>
           matrixAbsMins net' = replicate (length (matrices net)) (Num MAX_VALUE) \<and>
           matrixAbsMaxs net' = replicate (length (matrices net)) (Num (- MAX_VALUE))"
proof -
  let ?N = "length (nodes net)"
  let ?ms = "matrices net"
  have T: "thresholded st net = Inr T" using assms(1) by (simp add: thresholded_def)
  have nk: "\<not> kept T p \<and> fst p < length T" if "p \<in> set (pairs ?N)" for p
  proof -
    from that have "fst p < ?N \<and> snd p < ?N \<and> fst p \<noteq> snd p" by (auto simp: set_pairs)
    with assms(2) have e: "arr_get2 T (fst p) (snd p) = Inr NaN" by blast
    then have "fst p < length T" by (auto simp: arr_get2_def arr_get_def split: if_splits)
    moreover from e have "entry T (fst p) (snd p) = NaN" by (simp add: entry_def)
    ultimately show ?thesis by (simp add: kept_def isNaN_def)
  qed
  then have "\<forall>p \<in> set (pairs ?N). readable T ?ms p" by (simp add: readable_def)
  from thresholdNetwork_total[OF T this] obtain net' where r: "thresholdNetwork st net = Inr net'" ..
  from nk have f: "filter (kept T) (pairs ?N) = []" by (simp add: filter_empty_conv)
  from r obtain T' ns where "thresholded st net = Inr T'"
    and "net' = net\<lparr>nodes := ns,
                    edges := map (mkEdge ?ms) (filter (kept T') (pairs ?N)),
                    matrixMins := s_mins (finalStats T' ?ms ?N),
                    matrixMaxs := s_maxs (finalStats T' ?ms ?N),
                    matrixAbsMins := s_absMins (finalStats T' ?ms ?N),
                    matrixAbsMaxs := s_absMaxs (finalStats T' ?ms ?N)\<rparr>"
    by (rule thresholdNetwork_Inr)
  with T f have "edges net' = [] \<and>
           matrixMins net' = replicate (length ?ms) (Num MAX_VALUE) \<and>
           matrixMaxs net' = replicate (length ?ms) (Num (- MAX_VALUE)) \<and>
           matrixAbsMins net' = replicate (length ?ms) (Num MAX_VALUE) \<and>
           matrixAbsMaxs net' = replicate (length ?ms) (Num (- MAX_VALUE))"
    by (simp add: finalStats_def initStats_def)
  with r show ?thesis by blast
qed

theorem no_edges_sentinels_witness:
  "\<exists>net'. thresholdNetwork emptyStore nanNetwork = Inr net' \<and> edges net' = [] \<and>
           matrixMins net' = [Num MAX_VALUE, Num MAX_VALUE] \<and>
           matrixMaxs net' = [Num (- MAX_VALUE), Num (- MAX_VALUE)] \<and>
           matrixAbsMins net' = [Num MAX_VALUE, Num MAX_VALUE] \<and>
           matrixAbsMaxs net' = [Num (- MAX_VALUE), Num (- MAX_VALUE)]"
proof -
  have T: "thresholdFunc nanNetwork (arr_get_int (matrices nanNetwork) (thresholdIdx nanNetwork))
             (emptyStore ! thresholdValues nanNetwork) = Inr nanMatrix"
    by (simp add: nanNetwork_def initNetwork_def noThreshold_def arr_get_int_def)
  have n: "length (nodes nanNetwork) = 3" "length (matrices nanNetwork) = 2"
    by (simp_all add: nanNetwork_def initNetwork_def)
  have h: "\<forall>i j. i < length (nodes nanNetwork) \<and> j < length (nodes nanNetwork) \<and> i \<noteq> j \<longrightarrow>
             arr_get2 nanMatrix i j = Inr NaN"
    unfolding n lt3 by (auto simp: nanMatrix_def arr_get2_def arr_get_def val_get_def)
  from no_edges_sentinels[OF T h] show ?thesis
    by (simp add: n numeral_2_eq_2)
qed

section \<open>What the dendrogram operations leave unchanged\<close>


lemma treeFrame_refl: "treeFrame net net"
proof -
  have "net = net\<lparr>nodes := nodes net, heap := heap net, treeNodes := treeNodes net,
                  numClusters := numClusters net, scaleInfo := scaleInfo net\<rparr>" by simp
  then show ?thesis unfolding treeFrame_def by blast
qed

lemma treeFrame_trans:
  assumes "treeFrame a b" and "treeFrame b c"
  shows "treeFrame a c"
proof -
  from assms(1) obtain ns h tn k si
    where b: "b = a\<lparr>nodes := ns, heap := h, treeNodes := tn, numClusters := k, scaleInfo := si\<rparr>"
      and m: "map dropParent ns = map dropParent (nodes a)"
    unfolding treeFrame_def by blast
  from assms(2) obtain ns' h' tn' k' si'
    where c: "c = b\<lparr>nodes := ns', heap := h', treeNodes := tn', numClusters := k', scaleInfo := si'\<rparr>"
      and m': "map dropParent ns' = map dropParent (nodes b)"
    unfolding treeFrame_def by blast
  have "c = a\<lparr>nodes := ns', heap := h', treeNodes := tn', numClusters := k', scaleInfo := si'\<rparr>"
    by (simp add: b c)
  moreover have "map dropParent ns' = map dropParent (nodes a)"
    using m m' by (simp add: b)
  ultimately show ?thesis unfolding treeFrame_def by blast
qed

lemma treeFrame_fields:
  assumes "treeFrame net net'"
  shows "edges net' = edges net" "matrices net' = matrices net"
    "thresholdValues net' = thresholdValues net" "thresholdValueLabels net' = thresholdValueLabels net"
    "thresholdIdx net' = thresholdIdx net" "thresholdFunc net' = thresholdFunc net"
    "linkage net' = linkage net"
    "matrixMins net' = matrixMins net" "matrixMaxs net' = matrixMaxs net"
    "matrixAbsMins net' = matrixAbsMins net" "matrixAbsMaxs net' = matrixAbsMaxs net"
    "nodeData net' = nodeData net" "thumbUrl net' = thumbUrl net"
    "matrixLabels net' = matrixLabels net" "nodeDataLabels net' = nodeDataLabels net"
    "length (nodes net') = length (nodes net)"
    "map dropParent (nodes net') = map dropParent (nodes net)"
  using assms unfolding treeFrame_def by (auto dest: map_eq_imp_length_eq)

lemma treeFrame_node:
  assumes "treeFrame net net'" and "k < length (nodes net)"
  shows "n_neighbours (nodes net' ! k) = n_neighbours (nodes net ! k)"
    and "n_edges (nodes net' ! k) = n_edges (nodes net ! k)"
    and "n_index (nodes net' ! k) = n_index (nodes net ! k)"
    and "n_name (nodes net' ! k) = n_name (nodes net ! k)"
    and "n_fullNetIndex (nodes net' ! k) = n_fullNetIndex (nodes net ! k)"
    and "n_thumbnail (nodes net' ! k) = n_thumbnail (nodes net ! k)"
    and "n_nodeData (nodes net' ! k) = n_nodeData (nodes net ! k)"
proof -
  from treeFrame_fields(16,17)[OF assms(1)] assms(2)
  have "dropParent (nodes net' ! k) = dropParent (nodes net ! k)"
    by (metis nth_map)
  then have eq: "(nodes net' ! k)\<lparr>n_parent := None\<rparr> = (nodes net ! k)\<lparr>n_parent := None\<rparr>"
    by (simp add: dropParent_def)
  from arg_cong[OF eq, of n_neighbours]
  show "n_neighbours (nodes net' ! k) = n_neighbours (nodes net ! k)" by simp
  from arg_cong[OF eq, of n_edges]
  show "n_edges (nodes net' ! k) = n_edges (nodes net ! k)" by simp
  from arg_cong[OF eq, of n_index]
  show "n_index (nodes net' ! k) = n_index (nodes net ! k)" by simp
  from arg_cong[OF eq, of n_name]
  show "n_name (nodes net' ! k) = n_name (nodes net ! k)" by simp
  from arg_cong[OF eq, of n_fullNetIndex]
  show "n_fullNetIndex (nodes net' ! k) = n_fullNetIndex (nodes net ! k)" by simp
  from arg_cong[OF eq, of n_thumbnail]
  show "n_thumbnail (nodes net' ! k) = n_thumbnail (nodes net ! k)" by simp
  from arg_cong[OF eq, of n_nodeData]
  show "n_nodeData (nodes net' ! k) = n_nodeData (nodes net ! k)" by simp
qed

lemma dropParent_update: "map dropParent (ns[k := (ns ! k)\<lparr>n_parent := p\<rparr>]) = map dropParent ns"
  by (cases "k < length ns") (auto simp: dropParent_def nth_list_update intro!: nth_equalityI)

lemma treeFrame_setParent: "treeFrame net (setParent r p net)"
proof (cases r)
  case (NodeRef k)
  have "setParent r p net = net\<lparr>nodes := (nodes net)[k := (nodes net ! k)\<lparr>n_parent := Some p\<rparr>],
          heap := heap net, treeNodes := treeNodes net, numClusters := numClusters net, scaleInfo := scaleInfo net\<rparr>"
    by (simp add: setParent_def NodeRef)
  then show ?thesis unfolding treeFrame_def using dropParent_update by blast
next
  case (TreeRef t)
  have "setParent r p net = net\<lparr>nodes := nodes net,
          heap := (heap net)[t := (heap net ! t)\<lparr>t_parent := Some p\<rparr>], treeNodes := treeNodes net,
          numClusters := numClusters net, scaleInfo := scaleInfo net\<rparr>"
    by (simp add: setParent_def TreeRef)
  then show ?thesis unfolding treeFrame_def by blast
qed

lemma treeFrame_setChildren: "treeFrame net (setChildren t cs net)"
proof -
  have "setChildren t cs net = net\<lparr>nodes := nodes net,
          heap := (heap net)[t := (heap net ! t)\<lparr>t_children := cs\<rparr>], treeNodes := treeNodes net,
          numClusters := numClusters net, scaleInfo := scaleInfo net\<rparr>"
    by (simp add: setChildren_def)
  then show ?thesis unfolding treeFrame_def by blast
qed

lemma treeFrame_pushChild: "treeFrame net (pushChild t c net)"
  unfolding pushChild_def by (rule treeFrame_setChildren)

lemma treeFrame_heap: "treeFrame net (net\<lparr>heap := h\<rparr>)"
proof -
  have "net\<lparr>heap := h\<rparr> = net\<lparr>nodes := nodes net, heap := h, treeNodes := treeNodes net,
          numClusters := numClusters net, scaleInfo := scaleInfo net\<rparr>" by simp
  then show ?thesis unfolding treeFrame_def by blast
qed

lemma treeFrame_treeNodes: "treeFrame net (net\<lparr>treeNodes := tn\<rparr>)"
proof -
  have "net\<lparr>treeNodes := tn\<rparr> = net\<lparr>nodes := nodes net, heap := heap net, treeNodes := tn,
          numClusters := numClusters net, scaleInfo := scaleInfo net\<rparr>" by simp
  then show ?thesis unfolding treeFrame_def by blast
qed

lemma treeFrame_scaleInfo: "treeFrame net (net\<lparr>scaleInfo := si\<rparr>)"
proof -
  have "net\<lparr>scaleInfo := si\<rparr> = net\<lparr>nodes := nodes net, heap := heap net, treeNodes := treeNodes net,
          numClusters := numClusters net, scaleInfo := si\<rparr>" by simp
  then show ?thesis unfolding treeFrame_def by blast
qed

lemma treeFrame_numClusters: "treeFrame net (net\<lparr>numClusters := k\<rparr>)"
proof -
  have "net\<lparr>numClusters := k\<rparr> = net\<lparr>nodes := nodes net, heap := heap net, treeNodes := treeNodes net,
          numClusters := k, scaleInfo := scaleInfo net\<rparr>" by simp
  then show ?thesis unfolding treeFrame_def by blast
qed

lemma treeFrame_fold:
  "(\<And>x n. treeFrame n (f x n)) \<Longrightarrow> treeFrame net (fold f xs net)"
proof (induction xs arbitrary: net)
  case Nil
  show ?case by (simp add: treeFrame_refl)
next
  case (Cons x xs)
  from Cons.prems have "treeFrame net (f x net)" .
  moreover have "treeFrame (f x net) (fold f xs (f x net))" using Cons by blast
  ultimately show ?case by (simp add: treeFrame_trans)
qed

lemma squeeze_body_frame:
  "treeFrame net (fold (\<lambda>child n. pushChild p child (setParent child p n)) cs
                    ((setChildren p xs net)\<lparr>treeNodes := tn\<rparr>))"
proof -
  have "treeFrame net (setChildren p xs net)" by (rule treeFrame_setChildren)
  moreover have "treeFrame (setChildren p xs net) ((setChildren p xs net)\<lparr>treeNodes := tn\<rparr>)"
    by (rule treeFrame_treeNodes)
  moreover have "treeFrame ((setChildren p xs net)\<lparr>treeNodes := tn\<rparr>)
      (fold (\<lambda>child n. pushChild p child (setParent child p n)) cs
                    ((setChildren p xs net)\<lparr>treeNodes := tn\<rparr>))"
    by (rule treeFrame_fold) (rule treeFrame_trans[OF treeFrame_setParent treeFrame_pushChild])
  ultimately show ?thesis by (blast intro: treeFrame_trans)
qed

lemma squeezeCluster_frame:
  assumes "squeezeCluster net cl = Inr net'"
  shows "treeFrame net net'"
  using assms unfolding squeezeCluster_def Let_def
  by (auto split: sum.splits option.splits simp: squeeze_body_frame)

lemma squeezeCluster_error: "squeezeCluster net cl = Inl e \<Longrightarrow> e = TypeError"
  unfolding squeezeCluster_def Let_def
  by (induction cl) (auto split: sum.splits option.splits)




lemma flattenLoop_frame:
  assumes "flattenLoop net K = Some r"
  shows "case r of Inl (e, net') \<Rightarrow> e = TypeError \<and> treeFrame net net'
                 | Inr net' \<Rightarrow> treeFrame net net' \<and> int (length (getClusters net')) \<le> K"
proof (rule flattenLoop.raw_induct[OF _ assms])
  fix loop :: "'a network \<Rightarrow> int \<Rightarrow> ((error \<times> 'a network) + 'a network) option"
  fix net K r
  assume IH: "\<And>net K r. loop net K = Some r \<Longrightarrow>
     (case r of Inl (e, net') \<Rightarrow> e = TypeError \<and> treeFrame net net'
                 | Inr net' \<Rightarrow> treeFrame net net' \<and> int (length (getClusters net')) \<le> K)"
  assume body: "(if K < int (length (getClusters net))
      then case squeezeCluster net (getClusters net) of
           Inl err \<Rightarrow> Some (Inl (err, net))
           | Inr network' \<Rightarrow> loop network' K
      else Some (Inr net)) = Some r"
  show "case r of Inl (e, net') \<Rightarrow> e = TypeError \<and> treeFrame net net'
                 | Inr net' \<Rightarrow> treeFrame net net' \<and> int (length (getClusters net')) \<le> K"
  proof (cases "int (length (getClusters net)) > K")
    case False
    with body show ?thesis by (auto simp: treeFrame_refl)
  next
    case True
    show ?thesis
    proof (cases "squeezeCluster net (getClusters net)")
      case (Inl e)
      with True body show ?thesis by (auto simp: treeFrame_refl squeezeCluster_error)
    next
      case (Inr net1)
      with True body have "loop net1 K = Some r" by simp
      from IH[OF this] squeezeCluster_frame[OF Inr] show ?thesis
        by (auto split: sum.splits intro: treeFrame_trans)
    qed
  qed
qed

lemma linkageStep_frame:
  "linkageStep n ir (net, tns) = Inr (net', tns') \<Longrightarrow> treeFrame net net'"
  "linkageStep n ir (net, tns) = Inl (e, net', tns') \<Longrightarrow> treeFrame net net' \<and> e = TypeError"
  unfolding linkageStep_def Let_def
  by (auto split: option.splits
      intro!: treeFrame_heap treeFrame_trans[OF treeFrame_heap treeFrame_setParent]
        treeFrame_trans[OF treeFrame_trans[OF treeFrame_heap treeFrame_setParent] treeFrame_setParent]
        treeFrame_trans[OF treeFrame_trans[OF treeFrame_trans[OF treeFrame_heap treeFrame_setParent] treeFrame_setParent] treeFrame_heap])

lemma linkageLoop_frame:
  "foldE (linkageStep n) irs (net, tns) = Inr (net', tns') \<Longrightarrow> treeFrame net net'"
  "foldE (linkageStep n) irs (net, tns) = Inl (e, net', tns') \<Longrightarrow> treeFrame net net' \<and> e = TypeError"
proof (induction irs arbitrary: net tns)
  case Nil
  { case 1 then show ?case by (simp add: treeFrame_refl) }
  { case 2 then show ?case by simp }
next
  case (Cons ir irs)
  { case 1
    then obtain net1 tns1 where s: "linkageStep n ir (net, tns) = Inr (net1, tns1)"
      and r: "foldE (linkageStep n) irs (net1, tns1) = Inr (net', tns')"
      by (auto split: sum.splits)
    from linkageStep_frame(1)[OF s] Cons.IH(1)[OF r] show ?case by (rule treeFrame_trans) }
  { case 2
    show ?case
    proof (cases "linkageStep n ir (net, tns)")
      case (Inl a)
      with 2 have "linkageStep n ir (net, tns) = Inl (e, net', tns')" by simp
      then show ?thesis by (rule linkageStep_frame(2))
    next
      case (Inr b)
      obtain net1 tns1 where b: "b = (net1, tns1)" by (cases b)
      with Inr 2 have r: "foldE (linkageStep n) irs (net1, tns1) = Inl (e, net', tns')" by simp
      from linkageStep_frame(1)[OF Inr[unfolded b]] Cons.IH(2)[OF r] show ?thesis
        by (auto intro: treeFrame_trans)
    qed }
qed

lemma makeNetworkDendrogramTree_frame:
  "makeNetworkDendrogramTree net lk = Inr net' \<Longrightarrow> treeFrame net net'"
  "makeNetworkDendrogramTree net lk = Inl (e, net') \<Longrightarrow> treeFrame net net' \<and> e = TypeError"
  unfolding makeNetworkDendrogramTree_def Let_def
  by (auto split: sum.splits prod.splits dest: linkageLoop_frame
      intro: treeFrame_trans[OF _ treeFrame_treeNodes])

lemma setNumClusters_frame:
  assumes "setNumClusters net K = Some r"
  shows "case r of Inl (e, net') \<Rightarrow> e = TypeError \<and> treeFrame net net'
                 | Inr net' \<Rightarrow> treeFrame net net'"
proof (cases "linkage net")
  case None
  with assms show ?thesis by (auto simp: setNumClusters_def treeFrame_refl)
next
  case (Some lk)
  show ?thesis
  proof (cases "makeNetworkDendrogramTree net lk")
    case (Inl a)
    obtain e net1 where a: "a = (e, net1)" by (cases a)
    from makeNetworkDendrogramTree_frame(2)[OF Inl[unfolded a]] assms Some Inl a
    show ?thesis by (auto simp: setNumClusters_def)
  next
    case (Inr net1)
    note f1 = makeNetworkDendrogramTree_frame(1)[OF Inr]
    from assms Some Inr obtain r1 where r1: "flattenLoop net1 K = Some r1"
      by (auto simp: setNumClusters_def flattenDendrogramTree_def split: option.splits)
    note f2 = flattenLoop_frame[OF r1]
    show ?thesis
    proof (cases r1)
      case (Inl a)
      with assms Some Inr r1 f1 f2 show ?thesis
        by (auto simp: setNumClusters_def flattenDendrogramTree_def intro: treeFrame_trans)
    next
      case (Inr net2)
      with f2 have "treeFrame net1 net2" by simp
      with f1 have "treeFrame net net2" by (rule treeFrame_trans)
      then have "treeFrame net (net2\<lparr>numClusters := K\<rparr>)"
        by (rule treeFrame_trans[OF _ treeFrame_numClusters])
      with assms Some \<open>makeNetworkDendrogramTree net lk = Inr net1\<close> r1 Inr show ?thesis
        by (auto simp: setNumClusters_def flattenDendrogramTree_def)
    qed
  qed
qed



lemma thresholdNetwork_keeps:
  assumes "thresholdNetwork st net = r"
  shows "\<exists>es ns a b c d. outcome r = net\<lparr>edges := es, nodes := ns, matrixMins := a, matrixMaxs := b,
            matrixAbsMins := c, matrixAbsMaxs := d\<rparr>"
proof (cases r)
  case (Inl x)
  obtain e net' where x: "x = (e, net')" by (cases x)
  from thresholdNetwork_Inl_frame[OF assms[unfolded Inl x]] obtain es ns
    where "net' = net\<lparr>edges := es, nodes := ns\<rparr>" by blast
  then have "outcome r = net\<lparr>edges := es, nodes := ns, matrixMins := matrixMins net,
       matrixMaxs := matrixMaxs net, matrixAbsMins := matrixAbsMins net,
       matrixAbsMaxs := matrixAbsMaxs net\<rparr>"
    by (simp add: outcome_def Inl x)
  then show ?thesis by blast
next
  case (Inr net')
  from assms[unfolded Inr] obtain T ns where
    "net' = net\<lparr>nodes := ns,
        edges := map (mkEdge (matrices net)) (filter (kept T) (pairs (length (nodes net)))),
        matrixMins := s_mins (finalStats T (matrices net) (length (nodes net))),
        matrixMaxs := s_maxs (finalStats T (matrices net) (length (nodes net))),
        matrixAbsMins := s_absMins (finalStats T (matrices net) (length (nodes net))),
        matrixAbsMaxs := s_absMaxs (finalStats T (matrices net) (length (nodes net)))\<rparr>"
    by (rule thresholdNetwork_Inr)
  then have "outcome r = net\<lparr>edges := map (mkEdge (matrices net)) (filter (kept T) (pairs (length (nodes net)))),
        nodes := ns,
        matrixMins := s_mins (finalStats T (matrices net) (length (nodes net))),
        matrixMaxs := s_maxs (finalStats T (matrices net) (length (nodes net))),
        matrixAbsMins := s_absMins (finalStats T (matrices net) (length (nodes net))),
        matrixAbsMaxs := s_absMaxs (finalStats T (matrices net) (length (nodes net)))\<rparr>"
    by (simp add: outcome_def Inr)
  then show ?thesis by blast
qed

lemma thresholdNetwork_keeps_fields:
  assumes "thresholdNetwork st net = r"
  shows "thresholdValues (outcome r) = thresholdValues net"
    and "thresholdValueLabels (outcome r) = thresholdValueLabels net"
    and "thresholdIdx (outcome r) = thresholdIdx net"
    and "matrices (outcome r) = matrices net"
    and "thresholdFunc (outcome r) = thresholdFunc net"
    and "linkage (outcome r) = linkage net"
    and "numClusters (outcome r) = numClusters net"
    and "scaleInfo (outcome r) = scaleInfo net"
  using thresholdNetwork_keeps[OF assms] by auto

lemma setNumClusters_keeps_fields:
  assumes "setNumClusters net K = Some r"
  shows "treeFrame net (outcome r)"
  using setNumClusters_frame[OF assms] by (auto simp: outcome_def split: sum.splits)

lemma genColourScales_outcome: "outcome (genColourScales net si) = net"
  by (simp add: genColourScales_def outcome_def split: option.splits)

lemma setThresholdValue_guard:
  "idx < 0 \<or> idx \<ge> int (length (st ! thresholdValues net)) \<Longrightarrow>
   setThresholdValue st net idx v = Some (Inl (Thrown ''Threshold value index out of range.'', net), st)"
  by (simp add: setThresholdValue_def)

lemma setThresholdValue_run:
  assumes "0 \<le> idx" and "idx < int (length (st ! thresholdValues net))"
    and "setThresholdValue st net idx v = Some (r, st')"
  shows "st' = st[thresholdValues net := (st ! thresholdValues net)[nat idx := v]] \<and>
     thresholdValues (outcome r) = thresholdValues net \<and> thresholdIdx (outcome r) = thresholdIdx net \<and>
     matrices (outcome r) = matrices net \<and> thresholdFunc (outcome r) = thresholdFunc net \<and>
     (\<forall>net'. r = Inr net' \<longrightarrow> (\<exists>net2. thresholdNetwork st' net = Inr net2 \<and> treeFrame net2 net'))"
proof -
  let ?st1 = "st[thresholdValues net := (st ! thresholdValues net)[nat idx := v]]"
  from assms have st': "st' = ?st1"
    by (auto simp: setThresholdValue_def Let_def split: sum.splits option.splits)
  note k = thresholdNetwork_keeps_fields[OF refl, of ?st1 net]
  have "thresholdValues (outcome r) = thresholdValues net \<and> thresholdIdx (outcome r) = thresholdIdx net \<and>
     matrices (outcome r) = matrices net \<and> thresholdFunc (outcome r) = thresholdFunc net \<and>
     (\<forall>net'. r = Inr net' \<longrightarrow> (\<exists>net2. thresholdNetwork st' net = Inr net2 \<and> treeFrame net2 net'))"
  proof (cases "thresholdNetwork ?st1 net")
    case (Inl e)
    with assms have "r = Inl e" by (auto simp: setThresholdValue_def Let_def)
    with k Inl show ?thesis by simp
  next
    case (Inr net2)
    with k have k2: "thresholdValues net2 = thresholdValues net" "thresholdIdx net2 = thresholdIdx net"
      "matrices net2 = matrices net" "thresholdFunc net2 = thresholdFunc net"
      by (simp_all add: outcome_def)
    from assms Inr obtain r3 where r3: "setNumClusters net2 (numClusters net2) = Some r3"
      by (auto simp: setThresholdValue_def Let_def split: option.splits)
    note f = treeFrame_fields[OF setNumClusters_keeps_fields[OF r3]]
    show ?thesis
    proof (cases r3)
      case (Inl e)
      with assms \<open>thresholdNetwork ?st1 net = Inr net2\<close> r3 have "r = Inl e"
        by (auto simp: setThresholdValue_def Let_def)
      with f k2 Inl show ?thesis by simp
    next
      case (Inr net3)
      with assms \<open>thresholdNetwork ?st1 net = Inr net2\<close> r3
      have r: "r = genColourScales net3 (scaleInfo net3)"
        by (auto simp: setThresholdValue_def Let_def)
      then have o: "outcome r = net3" by (simp add: genColourScales_outcome)
      from Inr have o3: "outcome r3 = net3" by (simp add: outcome_def)
      have "\<forall>net'. r = Inr net' \<longrightarrow> (\<exists>net2. thresholdNetwork st' net = Inr net2 \<and> treeFrame net2 net')"
      proof (intro allI impI)
        fix net' assume "r = Inr net'"
        with o have "net' = net3" by (simp add: outcome_def)
        with setNumClusters_keeps_fields[OF r3] o3 have "treeFrame net2 net'" by simp
        with \<open>thresholdNetwork ?st1 net = Inr net2\<close> st'
        show "\<exists>net2. thresholdNetwork st' net = Inr net2 \<and> treeFrame net2 net'" by blast
      qed
      with f k2 o o3 show ?thesis by simp
    qed
  qed
  with st' show ?thesis by blast
qed

section \<open>Re-thresholding\<close>


lemma store_rewrite_same:
  assumes "xs \<noteq> []" and "xs = st ! a"
  shows "st[a := (st ! a)[0 := opt_get (st ! a) 0]] = st"
proof -
  from assms have "(st ! a)[0 := opt_get (st ! a) 0] = st ! a"
    by (simp add: opt_get_def list_update_same_conv)
  then show ?thesis by (simp add: list_update_same_conv)
qed

lemmas run_defs = setThresholdMatrix_def setThresholdValue_def setNumClusters_def genColourScales_def
  thresholdNetwork_def initNetwork_def newNode_def
  arr_get_int_def outerLoop_def innerLoop_def edgeStep_def arr_get2_def arr_get_def val_get_def opt_get_def
  isNaN_def upt_rec clearNode_def pushNeighbour_def pushEdge_def initStats_def updateStats_def
  updMin_def updMax_def js_gt_def Let_def

lemma thresholdNetwork_graph:
  assumes "thresholdNetwork st net = Inr net'"
  shows "\<exists>T. thresholded st net = Inr T \<and>
            (\<forall>i j. i < j \<and> j < length (nodes net) \<longrightarrow>
               (\<exists>v. arr_get2 T i j = Inr v \<and>
                    ((\<exists>e \<in> set (edges net'). e_i e = i \<and> e_j e = j) \<longleftrightarrow> \<not> isNaN v))) \<and>
            matrixMins net' = s_mins (finalStats T (matrices net) (length (nodes net))) \<and>
            matrixMaxs net' = s_maxs (finalStats T (matrices net) (length (nodes net))) \<and>
            matrixAbsMins net' = s_absMins (finalStats T (matrices net) (length (nodes net))) \<and>
            matrixAbsMaxs net' = s_absMaxs (finalStats T (matrices net) (length (nodes net)))"
    and "\<forall>e \<in> set (edges net'). e_i e < e_j e \<and> e_j e < length (nodes net) \<and>
            (\<forall>k < length (matrices net).
               arr_get2 (matrices net ! k) (e_i e) (e_j e) = Inr (e_weights e ! k))"
    and "length (nodes net') = length (nodes net)"
    and "\<forall>a < length (nodes net). n_neighbours (nodes net' ! a) = nbrsOf a (edges net')"
proof -
  let ?N = "length (nodes net)"
  let ?ms = "matrices net"
  from assms obtain T ns where T: "thresholded st net = Inr T"
    and net': "net' = net\<lparr>nodes := ns,
                    edges := map (mkEdge ?ms) (filter (kept T) (pairs ?N)),
                    matrixMins := s_mins (finalStats T ?ms ?N),
                    matrixMaxs := s_maxs (finalStats T ?ms ?N),
                    matrixAbsMins := s_absMins (finalStats T ?ms ?N),
                    matrixAbsMaxs := s_absMaxs (finalStats T ?ms ?N)\<rparr>"
    and rd: "\<forall>p \<in> set (pairs ?N). readable T ?ms p"
    and ln: "length ns = length (nodes net)"
    and nb: "\<forall>a<length (nodes net). n_neighbours (ns ! a) = nbrsOf a (edges net')"
    by (rule thresholdNetwork_Inr)
  have es: "edges net' = map (mkEdge ?ms) (filter (kept T) (pairs ?N))"
    by (simp add: net')
  have nds: "nodes net' = ns" by (simp add: net')
  have s1: "matrixMins net' = s_mins (finalStats T ?ms ?N)" by (simp add: net')
  have s2: "matrixMaxs net' = s_maxs (finalStats T ?ms ?N)" by (simp add: net')
  have s3: "matrixAbsMins net' = s_absMins (finalStats T ?ms ?N)" by (simp add: net')
  have s4: "matrixAbsMaxs net' = s_absMaxs (finalStats T ?ms ?N)" by (simp add: net')
  have a: "\<forall>i j. i < j \<and> j < ?N \<longrightarrow>
               (\<exists>v. arr_get2 T i j = Inr v \<and>
                    ((\<exists>e \<in> set (edges net'). e_i e = i \<and> e_j e = j) \<longleftrightarrow> \<not> isNaN v))"
  proof (intro allI impI)
    fix i j assume ij: "i < j \<and> j < ?N"
    then have p: "(i, j) \<in> set (pairs ?N)" by (simp add: set_pairs)
    with rd have "i < length T" by (auto simp: readable_def)
    then have r: "arr_get2 T i j = Inr (entry T i j)" by (rule arr_get2_entry)
    have "(\<exists>e \<in> set (edges net'). e_i e = i \<and> e_j e = j) \<longleftrightarrow> kept T (i, j)"
    proof
      assume "\<exists>e \<in> set (edges net'). e_i e = i \<and> e_j e = j"
      then obtain q where "q \<in> set (pairs ?N)" "kept T q" "e_i (mkEdge ?ms q) = i" "e_j (mkEdge ?ms q) = j"
        by (auto simp: es)
      then show "kept T (i, j)" using ij_mkEdge[of ?ms q] by simp
    next
      assume "kept T (i, j)"
      with p have "mkEdge ?ms (i, j) \<in> set (edges net')" by (simp add: es)
      moreover have "e_i (mkEdge ?ms (i, j)) = i \<and> e_j (mkEdge ?ms (i, j)) = j"
        by (simp add: mkEdge_def)
      ultimately show "\<exists>e \<in> set (edges net'). e_i e = i \<and> e_j e = j" by blast
    qed
    then show "\<exists>v. arr_get2 T i j = Inr v \<and>
                    ((\<exists>e \<in> set (edges net'). e_i e = i \<and> e_j e = j) \<longleftrightarrow> \<not> isNaN v)"
      using r by (simp add: kept_def)
  qed
  show "\<exists>T. thresholded st net = Inr T \<and>
            (\<forall>i j. i < j \<and> j < length (nodes net) \<longrightarrow>
               (\<exists>v. arr_get2 T i j = Inr v \<and>
                    ((\<exists>e \<in> set (edges net'). e_i e = i \<and> e_j e = j) \<longleftrightarrow> \<not> isNaN v))) \<and>
            matrixMins net' = s_mins (finalStats T (matrices net) (length (nodes net))) \<and>
            matrixMaxs net' = s_maxs (finalStats T (matrices net) (length (nodes net))) \<and>
            matrixAbsMins net' = s_absMins (finalStats T (matrices net) (length (nodes net))) \<and>
            matrixAbsMaxs net' = s_absMaxs (finalStats T (matrices net) (length (nodes net)))"
    by (intro exI[of _ T] conjI T a s1 s2 s3 s4)
  show "\<forall>e \<in> set (edges net'). e_i e < e_j e \<and> e_j e < ?N \<and>
            (\<forall>k < length ?ms. arr_get2 (?ms ! k) (e_i e) (e_j e) = Inr (e_weights e ! k))"
  proof
    fix e assume "e \<in> set (edges net')"
    then obtain q where q: "q \<in> set (pairs ?N)" "kept T q" and e: "e = mkEdge ?ms q"
      by (auto simp: es)
    from q(1) have "fst q < snd q" "snd q < ?N" by (auto simp: set_pairs)
    moreover from rd q have "\<forall>m \<in> set ?ms. fst q < length m" by (auto simp: readable_def)
    then have "\<forall>k < length ?ms. arr_get2 (?ms ! k) (fst q) (snd q) = Inr (entry (?ms ! k) (fst q) (snd q))"
      by (simp add: arr_get2_entry)
    ultimately show "e_i e < e_j e \<and> e_j e < ?N \<and>
            (\<forall>k < length ?ms. arr_get2 (?ms ! k) (e_i e) (e_j e) = Inr (e_weights e ! k))"
      by (simp add: e mkEdge_def)
  qed
  show "length (nodes net') = length (nodes net)" by (simp add: nds ln)
  show "\<forall>a < length (nodes net). n_neighbours (nodes net' ! a) = nbrsOf a (edges net')"
    using nb by (simp add: nds)
qed

text \<open>
  C10. For a valid matrix index, \<^verbatim>\<open>setThresholdMatrix\<close> stores the index and calls
  \<^verbatim>\<open>setThresholdValue\<close> for parameter 0 with the value \<^verbatim>\<open>thresholdValues[0]\<close>. When the
  array of threshold values is empty the call throws "Threshold value index out of
  range." and leaves the network with the new index. When the array is not empty the
  call re-thresholds the network with the new index, rebuilds the dendrogram and the
  scales, and leaves the store of threshold values as it was. When it returns, the
  network has the graph of the matrix at the new index: with the result \<open>T\<close> of the
  threshold function on that matrix and the threshold values, there is an edge for a
  pair \<open>i < j\<close> exactly when the entry \<open>[i][j]\<close> of \<open>T\<close> is not \<^verbatim>\<open>NaN\<close>, the weights of an edge
  are the entries of the matrices, the neighbours of a node are the other ends of its
  edges, and the four statistics are those of the edges kept by \<open>T\<close>.
\<close>

theorem setThresholdMatrix_delegates:
  assumes "0 \<le> idx" and "idx < int (length (matrices net))"
  shows "(st ! thresholdValues net = [] \<longrightarrow>
            setThresholdMatrix st net idx =
              Some (Inl (Thrown ''Threshold value index out of range.'', net\<lparr>thresholdIdx := idx\<rparr>), st)) \<and>
         (st ! thresholdValues net \<noteq> [] \<longrightarrow>
            setThresholdMatrix st net idx =
              (case thresholdNetwork st (net\<lparr>thresholdIdx := idx\<rparr>) of
                 Inl e \<Rightarrow> Some (Inl e, st)
               | Inr network2 \<Rightarrow>
                   (case setNumClusters network2 (numClusters network2) of
                      None \<Rightarrow> None
                    | Some (Inl e) \<Rightarrow> Some (Inl e, st)
                    | Some (Inr network3) \<Rightarrow> Some (genColourScales network3 (scaleInfo network3), st))) \<and>
            (\<forall>r st'. setThresholdMatrix st net idx = Some (r, st') \<longrightarrow>
               st' = st \<and> thresholdValues (outcome r) = thresholdValues net \<and>
               thresholdIdx (outcome r) = idx) \<and>
            (\<forall>net' st'. setThresholdMatrix st net idx = Some (Inr net', st') \<longrightarrow>
               opt_get (st' ! thresholdValues net') 0 = opt_get (st ! thresholdValues net) 0 \<and>
               (\<exists>T. thresholdFunc net (Some (matrices net ! nat idx)) (st ! thresholdValues net) = Inr T \<and>
                  (\<forall>i j. i < j \<and> j < length (nodes net) \<longrightarrow>
                     (\<exists>v. arr_get2 T i j = Inr v \<and>
                        ((\<exists>e \<in> set (edges net'). e_i e = i \<and> e_j e = j) \<longleftrightarrow> \<not> isNaN v))) \<and>
                  matrixMins net' = s_mins (finalStats T (matrices net) (length (nodes net))) \<and>
                  matrixMaxs net' = s_maxs (finalStats T (matrices net) (length (nodes net))) \<and>
                  matrixAbsMins net' = s_absMins (finalStats T (matrices net) (length (nodes net))) \<and>
                  matrixAbsMaxs net' = s_absMaxs (finalStats T (matrices net) (length (nodes net)))) \<and>
               (\<forall>e \<in> set (edges net'). e_i e < e_j e \<and> e_j e < length (nodes net) \<and>
                  (\<forall>k < length (matrices net).
                     arr_get2 (matrices net ! k) (e_i e) (e_j e) = Inr (e_weights e ! k))) \<and>
               length (nodes net') = length (nodes net) \<and>
               (\<forall>a < length (nodes net). n_neighbours (nodes net' ! a) = nbrsOf a (edges net'))))"
proof (intro conjI impI)
  assume "st ! thresholdValues net = []"
  with assms show "setThresholdMatrix st net idx =
      Some (Inl (Thrown ''Threshold value index out of range.'', net\<lparr>thresholdIdx := idx\<rparr>), st)"
    by (simp add: setThresholdMatrix_def setThresholdValue_def)
next
  assume ne: "st ! thresholdValues net \<noteq> []"
  let ?net1 = "net\<lparr>thresholdIdx := idx\<rparr>"
  have same: "st[thresholdValues net := (st ! thresholdValues net)[0 := opt_get (st ! thresholdValues net) 0]] = st"
    using ne by (rule store_rewrite_same) simp
  from assms ne show eq: "setThresholdMatrix st net idx =
              (case thresholdNetwork st ?net1 of
                 Inl e \<Rightarrow> Some (Inl e, st)
               | Inr network2 \<Rightarrow>
                   (case setNumClusters network2 (numClusters network2) of
                      None \<Rightarrow> None
                    | Some (Inl e) \<Rightarrow> Some (Inl e, st)
                    | Some (Inr network3) \<Rightarrow> Some (genColourScales network3 (scaleInfo network3), st)))"
    by (simp add: setThresholdMatrix_def setThresholdValue_def same)
  have sv: "setThresholdMatrix st net idx = setThresholdValue st ?net1 0 (opt_get (st ! thresholdValues net) 0)"
    using assms by (simp add: setThresholdMatrix_def)
  show "\<forall>r st'. setThresholdMatrix st net idx = Some (r, st') \<longrightarrow>
               st' = st \<and> thresholdValues (outcome r) = thresholdValues net \<and>
               thresholdIdx (outcome r) = idx"
  proof (intro allI impI)
    fix r st' assume "setThresholdMatrix st net idx = Some (r, st')"
    with sv have "setThresholdValue st ?net1 0 (opt_get (st ! thresholdValues net) 0) = Some (r, st')"
      by simp
    from setThresholdValue_run[OF _ _ this] ne same
    show "st' = st \<and> thresholdValues (outcome r) = thresholdValues net \<and> thresholdIdx (outcome r) = idx"
      by simp
  qed
  show "\<forall>net' st'. setThresholdMatrix st net idx = Some (Inr net', st') \<longrightarrow>
               opt_get (st' ! thresholdValues net') 0 = opt_get (st ! thresholdValues net) 0 \<and>
               (\<exists>T. thresholdFunc net (Some (matrices net ! nat idx)) (st ! thresholdValues net) = Inr T \<and>
                  (\<forall>i j. i < j \<and> j < length (nodes net) \<longrightarrow>
                     (\<exists>v. arr_get2 T i j = Inr v \<and>
                        ((\<exists>e \<in> set (edges net'). e_i e = i \<and> e_j e = j) \<longleftrightarrow> \<not> isNaN v))) \<and>
                  matrixMins net' = s_mins (finalStats T (matrices net) (length (nodes net))) \<and>
                  matrixMaxs net' = s_maxs (finalStats T (matrices net) (length (nodes net))) \<and>
                  matrixAbsMins net' = s_absMins (finalStats T (matrices net) (length (nodes net))) \<and>
                  matrixAbsMaxs net' = s_absMaxs (finalStats T (matrices net) (length (nodes net)))) \<and>
               (\<forall>e \<in> set (edges net'). e_i e < e_j e \<and> e_j e < length (nodes net) \<and>
                  (\<forall>k < length (matrices net).
                     arr_get2 (matrices net ! k) (e_i e) (e_j e) = Inr (e_weights e ! k))) \<and>
               length (nodes net') = length (nodes net) \<and>
               (\<forall>a < length (nodes net). n_neighbours (nodes net' ! a) = nbrsOf a (edges net'))"
  proof (intro allI impI)
    fix net' st' assume "setThresholdMatrix st net idx = Some (Inr net', st')"
    with sv have run: "setThresholdValue st ?net1 0 (opt_get (st ! thresholdValues net) 0) = Some (Inr net', st')"
      by simp
    have z: "(0::int) \<le> 0" "0 < int (length (st ! thresholdValues ?net1))" using ne by simp_all
    note sr = setThresholdValue_run[OF z run]
    from sr same have st': "st' = st" by simp
    from sr have tv: "thresholdValues net' = thresholdValues net" by (simp add: outcome_def)
    from sr have "\<exists>net2. thresholdNetwork st' ?net1 = Inr net2 \<and> treeFrame net2 net'" by blast
    then obtain net2 where t: "thresholdNetwork st ?net1 = Inr net2" and f: "treeFrame net2 net'"
      unfolding st' by blast
    note ff = treeFrame_fields[OF f]
    have th: "thresholded st ?net1 = thresholdFunc net (Some (matrices net ! nat idx)) (st ! thresholdValues net)"
      using assms by (simp add: thresholded_def arr_get_int_def)
    have n1: "length (nodes ?net1) = length (nodes net)" "matrices ?net1 = matrices net" by simp_all
    note g = thresholdNetwork_graph[OF t, unfolded th n1]
    have l: "length (nodes net') = length (nodes net)" using g(3) ff(16) by simp
    have nbr: "\<forall>a < length (nodes net). n_neighbours (nodes net' ! a) = nbrsOf a (edges net')"
    proof (intro allI impI)
      fix a assume a: "a < length (nodes net)"
      with g(3) have "a < length (nodes net2)" by simp
      from treeFrame_node(1)[OF f this] g(4)[rule_format, OF a] ff(1)
      show "n_neighbours (nodes net' ! a) = nbrsOf a (edges net')" by simp
    qed
    have v: "opt_get (st' ! thresholdValues net') 0 = opt_get (st ! thresholdValues net) 0"
      by (simp add: st' tv)
    from g(1) have g1: "\<exists>T. thresholdFunc net (Some (matrices net ! nat idx)) (st ! thresholdValues net) = Inr T \<and>
                  (\<forall>i j. i < j \<and> j < length (nodes net) \<longrightarrow>
                     (\<exists>v. arr_get2 T i j = Inr v \<and>
                        ((\<exists>e \<in> set (edges net'). e_i e = i \<and> e_j e = j) \<longleftrightarrow> \<not> isNaN v))) \<and>
                  matrixMins net' = s_mins (finalStats T (matrices net) (length (nodes net))) \<and>
                  matrixMaxs net' = s_maxs (finalStats T (matrices net) (length (nodes net))) \<and>
                  matrixAbsMins net' = s_absMins (finalStats T (matrices net) (length (nodes net))) \<and>
                  matrixAbsMaxs net' = s_absMaxs (finalStats T (matrices net) (length (nodes net)))"
      unfolding ff(1) ff(8) ff(9) ff(10) ff(11) .
    from g(2) have g2: "\<forall>e \<in> set (edges net'). e_i e < e_j e \<and> e_j e < length (nodes net) \<and>
                  (\<forall>k < length (matrices net).
                     arr_get2 (matrices net ! k) (e_i e) (e_j e) = Inr (e_weights e ! k))"
      unfolding ff(1) .
    show "opt_get (st' ! thresholdValues net') 0 = opt_get (st ! thresholdValues net) 0 \<and>
               (\<exists>T. thresholdFunc net (Some (matrices net ! nat idx)) (st ! thresholdValues net) = Inr T \<and>
                  (\<forall>i j. i < j \<and> j < length (nodes net) \<longrightarrow>
                     (\<exists>v. arr_get2 T i j = Inr v \<and>
                        ((\<exists>e \<in> set (edges net'). e_i e = i \<and> e_j e = j) \<longleftrightarrow> \<not> isNaN v))) \<and>
                  matrixMins net' = s_mins (finalStats T (matrices net) (length (nodes net))) \<and>
                  matrixMaxs net' = s_maxs (finalStats T (matrices net) (length (nodes net))) \<and>
                  matrixAbsMins net' = s_absMins (finalStats T (matrices net) (length (nodes net))) \<and>
                  matrixAbsMaxs net' = s_absMaxs (finalStats T (matrices net) (length (nodes net)))) \<and>
               (\<forall>e \<in> set (edges net'). e_i e < e_j e \<and> e_j e < length (nodes net) \<and>
                  (\<forall>k < length (matrices net).
                     arr_get2 (matrices net ! k) (e_i e) (e_j e) = Inr (e_weights e ! k))) \<and>
               length (nodes net') = length (nodes net) \<and>
               (\<forall>a < length (nodes net). n_neighbours (nodes net' ! a) = nbrsOf a (edges net'))"
      by (intro conjI v g1 g2 l nbr)
  qed
qed



theorem setThresholdMatrix_delegates_witness:
  "setThresholdMatrix emptyStore liveNetwork 0 =
     Some (Inl (Thrown ''Threshold value index out of range.'', liveNetwork\<lparr>thresholdIdx := 0\<rparr>), emptyStore) \<and>
   (\<exists>net'. setThresholdMatrix exampleStore liveNetwork 0 = Some (Inr net', exampleStore) \<and>
      thresholdValues net' = 0 \<and> thresholdIdx net' = 0) \<and>
   thresholdIdx liveNanNetwork = 0 \<and>
   (\<exists>n0. thresholdNetwork exampleStore liveNanNetwork = Inr n0 \<and> edges n0 = []) \<and>
   (\<exists>net'. setThresholdMatrix exampleStore liveNanNetwork 1 = Some (Inr net', exampleStore) \<and>
      thresholdIdx net' = 1 \<and>
      (\<exists>e \<in> set (edges net'). e_i e = 0 \<and> e_j e = 1) \<and>
      (\<exists>e \<in> set (edges net'). e_i e = 1 \<and> e_j e = 2) \<and>
      \<not> (\<exists>e \<in> set (edges net'). e_i e = 0 \<and> e_j e = 2) \<and>
      n_neighbours (nodes net' ! 1) = nbrsOf 1 (edges net') \<and>
      matrixMins net' ! 1 = Num 1 \<and> matrixMaxs net' ! 1 = Num 5)"
proof -
  have m: "(0::int) < int (length (matrices liveNetwork))"
    by (simp add: liveNetwork_def exampleNetwork_def initNetwork_def)
  have e: "emptyStore ! thresholdValues liveNetwork = []"
    by (simp add: liveNetwork_def exampleNetwork_def initNetwork_def emptyStore_def)
  have x: "exampleStore ! thresholdValues liveNetwork \<noteq> []"
    by (simp add: liveNetwork_def exampleNetwork_def initNetwork_def exampleStore_def)
  have tv: "thresholdValues liveNetwork = 0"
    by (simp add: liveNetwork_def exampleNetwork_def initNetwork_def)
  obtain r st' where run: "setThresholdMatrix exampleStore liveNetwork 0 = Some (Inr r, st')"
    by (simp add: liveNetwork_def exampleNetwork_def exampleMatrix_def exampleStore_def noThreshold_def
        run_defs)
  from setThresholdMatrix_delegates[OF order_refl m, of emptyStore] e
  have a: "setThresholdMatrix emptyStore liveNetwork 0 =
     Some (Inl (Thrown ''Threshold value index out of range.'', liveNetwork\<lparr>thresholdIdx := 0\<rparr>), emptyStore)"
    by blast
  from setThresholdMatrix_delegates[OF order_refl m, of exampleStore] x
  have "\<forall>r st'. setThresholdMatrix exampleStore liveNetwork 0 = Some (r, st') \<longrightarrow>
          st' = exampleStore \<and> thresholdValues (outcome r) = thresholdValues liveNetwork \<and>
          thresholdIdx (outcome r) = 0"
    by blast
  from this[rule_format, OF run] run tv
  have b: "\<exists>net'. setThresholdMatrix exampleStore liveNetwork 0 = Some (Inr net', exampleStore) \<and>
      thresholdValues net' = 0 \<and> thresholdIdx net' = 0"
    by (simp add: outcome_def)
  have c: "thresholdIdx liveNanNetwork = 0"
    by (simp add: liveNanNetwork_def nanNetwork_def initNetwork_def)
  have d: "\<exists>n0. thresholdNetwork exampleStore liveNanNetwork = Inr n0 \<and> edges n0 = []"
    by (simp add: liveNanNetwork_def nanNetwork_def nanMatrix_def exampleMatrix_def exampleStore_def
        noThreshold_def eval_defs)
  have m1: "(0::int) \<le> 1" "1 < int (length (matrices liveNanNetwork))"
    by (simp_all add: liveNanNetwork_def nanNetwork_def initNetwork_def)
  have x1: "exampleStore ! thresholdValues liveNanNetwork \<noteq> []"
    by (simp add: liveNanNetwork_def nanNetwork_def initNetwork_def exampleStore_def)
  have T: "thresholdFunc liveNanNetwork (Some (matrices liveNanNetwork ! nat 1))
             (exampleStore ! thresholdValues liveNanNetwork) = Inr exampleMatrix"
    by (simp add: liveNanNetwork_def nanNetwork_def initNetwork_def noThreshold_def)
  have n: "length (nodes liveNanNetwork) = 3" "matrices liveNanNetwork = [nanMatrix, exampleMatrix]"
    by (simp_all add: liveNanNetwork_def nanNetwork_def initNetwork_def)
  obtain r1 st1 where run1: "setThresholdMatrix exampleStore liveNanNetwork 1 = Some (Inr r1, st1)"
    by (simp add: liveNanNetwork_def nanNetwork_def nanMatrix_def exampleMatrix_def exampleStore_def
        noThreshold_def run_defs)
  note g = setThresholdMatrix_delegates[OF m1, of exampleStore, unfolded T, unfolded n]
  note h = mp[OF conjunct2[OF g] x1]
  note g3 = conjunct1[OF conjunct2[OF h]]
  note hF = conjunct2[OF conjunct2[OF h], THEN spec, THEN spec, THEN mp, OF run1]
  from g3[rule_format, OF run1] have s1: "st1 = exampleStore" and ti: "thresholdIdx r1 = 1"
    by (simp_all add: outcome_def)
  from hF have "\<exists>T. (Inr exampleMatrix :: error + matrix) = Inr T \<and>
          (\<forall>i j. i < j \<and> j < 3 \<longrightarrow>
             (\<exists>v. arr_get2 T i j = Inr v \<and>
                ((\<exists>e \<in> set (edges r1). e_i e = i \<and> e_j e = j) \<longleftrightarrow> \<not> isNaN v))) \<and>
          matrixMins r1 = s_mins (finalStats T [nanMatrix, exampleMatrix] 3) \<and>
          matrixMaxs r1 = s_maxs (finalStats T [nanMatrix, exampleMatrix] 3) \<and>
          matrixAbsMins r1 = s_absMins (finalStats T [nanMatrix, exampleMatrix] 3) \<and>
          matrixAbsMaxs r1 = s_absMaxs (finalStats T [nanMatrix, exampleMatrix] 3)"
    by (elim conjE)
  then obtain T where "Inr exampleMatrix = (Inr T :: error + matrix)"
    and ed0: "\<forall>i j. i < j \<and> j < 3 \<longrightarrow>
             (\<exists>v. arr_get2 T i j = Inr v \<and>
                ((\<exists>e \<in> set (edges r1). e_i e = i \<and> e_j e = j) \<longleftrightarrow> \<not> isNaN v))"
    and mn0: "matrixMins r1 = s_mins (finalStats T [nanMatrix, exampleMatrix] 3)"
    and mx0: "matrixMaxs r1 = s_maxs (finalStats T [nanMatrix, exampleMatrix] 3)"
    by blast
  then have TT: "T = exampleMatrix" by simp
  note ed = ed0[unfolded TT] and mn = mn0[unfolded TT] and mx = mx0[unfolded TT]
  from hF have nb: "\<forall>a < 3. n_neighbours (nodes r1 ! a) = nbrsOf a (edges r1)"
    by (elim conjE)
  from ed[rule_format, of 0 1] have e01: "\<exists>e \<in> set (edges r1). e_i e = 0 \<and> e_j e = 1"
    by (simp add: exampleMatrix_def arr_get2_def arr_get_def val_get_def isNaN_def)
  from ed[rule_format, of 1 2] have e12: "\<exists>e \<in> set (edges r1). e_i e = 1 \<and> e_j e = 2"
    by (simp add: exampleMatrix_def arr_get2_def arr_get_def val_get_def isNaN_def)
  from ed[rule_format, of 0 2] have e02: "\<not> (\<exists>e \<in> set (edges r1). e_i e = 0 \<and> e_j e = 2)"
    by (simp add: exampleMatrix_def arr_get2_def arr_get_def val_get_def isNaN_def)
  from nb have n1: "n_neighbours (nodes r1 ! 1) = nbrsOf 1 (edges r1)" by simp
  have st: "s_mins (finalStats exampleMatrix [nanMatrix, exampleMatrix] 3) ! 1 = Num 1"
    "s_maxs (finalStats exampleMatrix [nanMatrix, exampleMatrix] 3) ! 1 = Num 5"
    by (simp_all add: finalStats_def pairs_def kept_def entry_def mkEdge_def exampleMatrix_def nanMatrix_def
        initStats_def updateStats_def updMin_def updMax_def js_gt_def isNaN_def arr_get2_def
        arr_get_def val_get_def upt_rec Let_def MAX_VALUE_def)
  from st mn mx have s: "matrixMins r1 ! 1 = Num 1" "matrixMaxs r1 ! 1 = Num 5" by simp_all
  from run1 s1 have run1': "setThresholdMatrix exampleStore liveNanNetwork 1 = Some (Inr r1, exampleStore)"
    by simp
  have f: "\<exists>net'. setThresholdMatrix exampleStore liveNanNetwork 1 = Some (Inr net', exampleStore) \<and>
      thresholdIdx net' = 1 \<and>
      (\<exists>e \<in> set (edges net'). e_i e = 0 \<and> e_j e = 1) \<and>
      (\<exists>e \<in> set (edges net'). e_i e = 1 \<and> e_j e = 2) \<and>
      \<not> (\<exists>e \<in> set (edges net'). e_i e = 0 \<and> e_j e = 2) \<and>
      n_neighbours (nodes net' ! 1) = nbrsOf 1 (edges net') \<and>
      matrixMins net' ! 1 = Num 1 \<and> matrixMaxs net' ! 1 = Num 5"
    by (intro exI[of _ r1] conjI run1' ti e01 e12 e02 n1 s)
  show ?thesis by (intro conjI a b c d f)
qed


lemma createNetwork_Inr:
  assumes "createNetwork st ms mls nd ndls lk tu tf tv tvl ti nc = Some (Inr net')"
  shows "\<exists>m0 net1. arr_get ms 0 = Some m0 \<and>
           thresholdNetwork st (initNetwork ms mls nd ndls lk tu tf tv tvl ti nc (length m0)) = Inr net1 \<and>
           treeFrame net1 net' \<and>
           (\<exists>net2. setNumClusters net1 nc = Some (Inr net2) \<and>
              net' = net2\<lparr>scaleInfo := Some \<lparr> edgeWidthIdx = 0, edgeColourIdx = 0, nodeColourIdx = 0 \<rparr>\<rparr>)"
proof -
  from assms obtain m0 where m0: "arr_get ms 0 = Some m0"
    by (auto simp: createNetwork_def split: option.splits)
  let ?init = "initNetwork ms mls nd ndls lk tu tf tv tvl ti nc (length m0)"
  from assms m0 obtain net1 where n1: "thresholdNetwork st ?init = Inr net1"
    by (auto simp: createNetwork_def Let_def split: sum.splits prod.splits)
  from assms m0 n1 obtain net2 where n2: "setNumClusters net1 nc = Some (Inr net2)"
    by (auto simp: createNetwork_def Let_def split: option.splits sum.splits prod.splits)
  from assms m0 n1 n2
  have n': "net' = net2\<lparr>scaleInfo := Some \<lparr> edgeWidthIdx = 0, edgeColourIdx = 0, nodeColourIdx = 0 \<rparr>\<rparr>"
    by (auto simp: createNetwork_def Let_def genColourScales_def)
  from setNumClusters_keeps_fields[OF n2] have "treeFrame net1 net2" by (simp add: outcome_def)
  then have "treeFrame net1 net'" unfolding n' by (rule treeFrame_trans[OF _ treeFrame_scaleInfo])
  with m0 n1 n2 n' show ?thesis by blast
qed

lemma afterThreshold_graph:
  assumes "afterThreshold net"
  shows "\<exists>st0 net0 net2. thresholdNetwork st0 net0 = Inr net2 \<and> treeFrame net2 net"
  using assms
proof (cases rule: afterThreshold.cases)
  case (built st net0)
  then show ?thesis using treeFrame_refl by blast
next
  case (created st ms mls nd ndls lk tu tf tv tvl ti nc)
  from createNetwork_Inr[OF this] show ?thesis by blast
next
  case (value_set st net0 idx v st')
  then have "0 \<le> idx \<and> idx < int (length (st ! thresholdValues net0))"
    by (auto simp: setThresholdValue_def split: if_splits)
  with setThresholdValue_run[OF _ _ value_set] show ?thesis by blast
next
  case (matrix_set st net0 idx st')
  then have v: "setThresholdValue st (net0\<lparr>thresholdIdx := idx\<rparr>) 0
                 (opt_get (st ! thresholdValues (net0\<lparr>thresholdIdx := idx\<rparr>)) 0) = Some (Inr net, st')"
    by (auto simp: setThresholdMatrix_def Let_def split: if_splits)
  then have "(0::int) \<le> 0 \<and> 0 < int (length (st ! thresholdValues (net0\<lparr>thresholdIdx := idx\<rparr>)))"
    by (auto simp: setThresholdValue_def split: if_splits)
  with setThresholdValue_run[OF _ _ v] show ?thesis by blast
qed

lemma thresholdNetwork_neighbours:
  assumes "thresholdNetwork st net = Inr net'" and "a < length (nodes net')"
  shows "n_neighbours (nodes net' ! a) = nbrsOf a (edges net')"
proof -
  from assms(1) obtain T ns where
    n: "net' = net\<lparr>nodes := ns,
        edges := map (mkEdge (matrices net)) (filter (kept T) (pairs (length (nodes net)))),
        matrixMins := s_mins (finalStats T (matrices net) (length (nodes net))),
        matrixMaxs := s_maxs (finalStats T (matrices net) (length (nodes net))),
        matrixAbsMins := s_absMins (finalStats T (matrices net) (length (nodes net))),
        matrixAbsMaxs := s_absMaxs (finalStats T (matrices net) (length (nodes net)))\<rparr>"
    and l: "length ns = length (nodes net)"
    and nb: "\<forall>a<length (nodes net). n_neighbours (ns ! a) = nbrsOf a (edges net')"
    by (rule thresholdNetwork_Inr)
  from n have "nodes net' = ns" by simp
  with assms(2) l nb show ?thesis by simp
qed

lemma afterThreshold_neighbours:
  assumes "afterThreshold net" and "a < length (nodes net)"
  shows "n_neighbours (nodes net ! a) = nbrsOf a (edges net)"
proof -
  from afterThreshold_graph[OF assms(1)] obtain st0 net0 net2
    where t: "thresholdNetwork st0 net0 = Inr net2" and f: "treeFrame net2 net" by blast
  note ff = treeFrame_fields[OF f]
  from assms(2) ff have a: "a < length (nodes net2)" by simp
  from treeFrame_node(1)[OF f a] thresholdNetwork_neighbours[OF t a] ff(1)
  show ?thesis by simp
qed

text \<open>
  C5. In a network that comes out of a construction or of a re-threshold, for two
  different nodes \<open>i\<close> and \<open>j\<close>: there is an edge joining \<open>i\<close> and \<open>j\<close> exactly when there is
  one joining \<open>j\<close> and \<open>i\<close>; \<open>i\<close> is in the neighbour list of \<open>j\<close> exactly when \<open>j\<close> is in
  the neighbour list of \<open>i\<close>; and this is the case exactly when an edge joins them.
\<close>

theorem neighbours_symmetric:
  assumes "afterThreshold net" and "i < length (nodes net)" and "j < length (nodes net)" and "i \<noteq> j"
  shows "((\<exists>e \<in> set (edges net). (e_i e = i \<and> e_j e = j) \<or> (e_i e = j \<and> e_j e = i)) \<longleftrightarrow>
          (\<exists>e \<in> set (edges net). (e_i e = j \<and> e_j e = i) \<or> (e_i e = i \<and> e_j e = j))) \<and>
         (i \<in> set (n_neighbours (nodes net ! j)) \<longleftrightarrow> j \<in> set (n_neighbours (nodes net ! i))) \<and>
         (j \<in> set (n_neighbours (nodes net ! i)) \<longleftrightarrow>
            (\<exists>e \<in> set (edges net). (e_i e = i \<and> e_j e = j) \<or> (e_i e = j \<and> e_j e = i)))"
proof -
  from afterThreshold_neighbours[OF assms(1,2)] afterThreshold_neighbours[OF assms(1,3)]
  have "set (n_neighbours (nodes net ! i)) = set (nbrsOf i (edges net))"
    and "set (n_neighbours (nodes net ! j)) = set (nbrsOf j (edges net))" by simp_all
  then show ?thesis unfolding set_nbrsOf by blast
qed

theorem neighbours_symmetric_witness:
  "\<exists>net. thresholdNetwork emptyStore exampleNetwork = Inr net \<and>
     (1 \<in> set (n_neighbours (nodes net ! 0)) \<longleftrightarrow> 0 \<in> set (n_neighbours (nodes net ! 1))) \<and>
     (1 \<in> set (n_neighbours (nodes net ! 0)) \<longleftrightarrow>
        (\<exists>e \<in> set (edges net). (e_i e = 0 \<and> e_j e = 1) \<or> (e_i e = 1 \<and> e_j e = 0)))"
proof -
  obtain net where r: "thresholdNetwork emptyStore exampleNetwork = Inr net"
    by (simp add: exampleNetwork_def exampleMatrix_def noThreshold_def emptyStore_def eval_defs)
  then have a: "afterThreshold net" by (rule afterThreshold.built)
  from r have "length (nodes net) = 3"
    by (auto simp: exampleNetwork_def exampleMatrix_def noThreshold_def emptyStore_def eval_defs)
  then have l: "0 < length (nodes net)" "1 < length (nodes net)" by simp_all
  from neighbours_symmetric[OF a l] r show ?thesis by auto
qed

section \<open>The default threshold function\<close>


lemma js_lt_right [simp]: "js_lt a NaN = False" "js_lt a Undefined = False"
  by (cases a; simp)+

lemma js_lt_trans: "js_lt a b \<Longrightarrow> js_lt b c \<Longrightarrow> js_lt a c"
  by (cases a; cases b; cases c) auto

lemma js_lt_irrefl: "\<not> js_lt a a"
  by (cases a) auto

lemma js_lt_total: "a \<noteq> Undefined \<Longrightarrow> a \<noteq> NaN \<Longrightarrow> b \<noteq> Undefined \<Longrightarrow> b \<noteq> NaN \<Longrightarrow>
  js_lt a b \<or> a = b \<or> js_lt b a"
  by (cases a; cases b) auto

lemma d3_max_from_props:
  assumes "a \<noteq> Undefined" and "a \<noteq> NaN"
  shows "d3_max_from a bs \<in> insert a (set bs) \<and> d3_max_from a bs \<noteq> Undefined \<and>
         d3_max_from a bs \<noteq> NaN \<and> \<not> js_gt a (d3_max_from a bs) \<and>
         (\<forall>x \<in> set bs. \<not> js_gt x (d3_max_from a bs))"
  using assms
proof (induction bs arbitrary: a)
  case Nil
  then show ?case by (simp add: js_gt_def js_lt_irrefl)
next
  case (Cons b bs)
  show ?case
  proof (cases "b \<noteq> Undefined \<and> js_gt b a")
    case True
    then have b: "b \<noteq> Undefined" "b \<noteq> NaN" by (auto simp: js_gt_def)
    note ih = Cons.IH[OF b]
    from True have ab: "js_lt a b" by (simp add: js_gt_def)
    have "\<not> js_gt a (d3_max_from b bs)"
    proof
      assume "js_gt a (d3_max_from b bs)"
      then have "js_lt (d3_max_from b bs) a" by (simp add: js_gt_def)
      from js_lt_trans[OF this ab] ih show False by (simp add: js_gt_def)
    qed
    with True ih show ?thesis by auto
  next
    case False
    note ih = Cons.IH[OF Cons.prems]
    have "\<not> js_gt b (d3_max_from a bs)"
    proof
      assume g: "js_gt b (d3_max_from a bs)"
      then have "b \<noteq> Undefined" by (auto simp: js_gt_def)
      with False have nba: "\<not> js_lt a b" by (simp add: js_gt_def)
      from g have l: "js_lt (d3_max_from a bs) b" by (simp add: js_gt_def)
      then have bn: "b \<noteq> Undefined" "b \<noteq> NaN" by auto
      from ih have "\<not> js_lt (d3_max_from a bs) a" by (simp add: js_gt_def)
      moreover from js_lt_total[OF Cons.prems bn] nba have "a = b \<or> js_lt b a" by blast
      ultimately show False using l js_lt_trans by blast
    qed
    with False ih show ?thesis by auto
  qed
qed

lemma d3_max_props:
  "(d3_max xs = Undefined \<longleftrightarrow> (\<forall>x \<in> set xs. x = Undefined \<or> x = NaN)) \<and>
   (d3_max xs \<noteq> Undefined \<longrightarrow> d3_max xs \<in> set xs \<and> d3_max xs \<noteq> NaN \<and>
      (\<forall>x \<in> set xs. \<not> js_gt x (d3_max xs)))"
proof (induction xs)
  case Nil
  show ?case by simp
next
  case (Cons b bs)
  show ?case
  proof (cases "b \<noteq> Undefined \<and> b \<noteq> NaN")
    case True
    with d3_max_from_props[of b bs] show ?thesis by auto
  next
    case False
    then have "\<not> js_gt b y" for y by (auto simp: js_gt_def)
    with False Cons show ?thesis by auto
  qed
qed

lemma thresholdMatrix_Some:
  "thresholdMatrix mul (Some m) args =
     Inr (map (\<lambda>i. map (\<lambda>j. if code_suppressed mul m (opt_get args 0) i j then NaN else m ! i ! j)
                      [0..<length (m ! i)]) [0..<length m])"
proof -
  have "val_get (map (\<lambda>row. mul (d3_max (map js_abs row)) p) m) k =
          (if k < length m then mul (d3_max (map js_abs (m ! k))) p else Undefined)" for k p
    by (simp add: val_get_def)
  then show ?thesis
    unfolding thresholdMatrix_def Let_def code_suppressed_def
    by (auto intro!: map_cong simp: )
qed


text \<open>
  C2 (as amended). For every matrix and every list of threshold values the default
  threshold function returns a matrix of the same shape, in which entry \<open>(i, j)\<close> is \<^verbatim>\<open>NaN\<close>
  when \<open>|m[i][j]| < rowMax_i * p\<close> or \<open>|m[i][j]| < rowMax_j * p\<close>, and the entry of the
  input otherwise; both tests are on the entry's own value, and the second is false when
  there is no row \<open>j\<close>. \<open>rowMax_k\<close> is \<^verbatim>\<open>undefined\<close> when row \<open>k\<close> has no absolute value other
  than \<^verbatim>\<open>NaN\<close>, and otherwise an absolute value of row \<open>k\<close> that none exceeds. For a square
  matrix with \<open>m[i][j] = m[j][i]\<close> the test is the one of the specification, and entry
  \<open>(i, j)\<close> is suppressed exactly when entry \<open>(j, i)\<close> is.
\<close>

theorem thresholdMatrix_suppression:
  "(\<exists>T. thresholdMatrix mul (Some m) args = Inr T \<and> length T = length m \<and>
      (\<forall>i < length m. length (T ! i) = length (m ! i) \<and>
         (\<forall>j < length (m ! i). T ! i ! j =
            (if js_lt (js_abs (m ! i ! j)) (mul (d3_max (map js_abs (m ! i))) (opt_get args 0)) \<or>
                (j < length m \<and>
                 js_lt (js_abs (m ! i ! j)) (mul (d3_max (map js_abs (m ! j))) (opt_get args 0)))
             then NaN else m ! i ! j)))) \<and>
   (\<forall>k < length m.
      (d3_max (map js_abs (m ! k)) = Undefined \<longleftrightarrow> (\<forall>x \<in> set (m ! k). js_abs x = NaN)) \<and>
      (d3_max (map js_abs (m ! k)) \<noteq> Undefined \<longrightarrow>
         d3_max (map js_abs (m ! k)) \<in> js_abs ` set (m ! k) \<and>
         (\<forall>x \<in> set (m ! k). \<not> js_gt (js_abs x) (d3_max (map js_abs (m ! k)))))) \<and>
   ((\<forall>i < length m. length (m ! i) = length m) \<and>
    (\<forall>i < length m. \<forall>j < length m. m ! i ! j = m ! j ! i) \<longrightarrow>
    (\<forall>i < length m. \<forall>j < length m.
       (code_suppressed mul m (opt_get args 0) i j \<longleftrightarrow> spec_suppressed mul m (opt_get args 0) i j) \<and>
       (code_suppressed mul m (opt_get args 0) i j \<longleftrightarrow> code_suppressed mul m (opt_get args 0) j i)))"
proof (intro conjI)
  show "\<exists>T. thresholdMatrix mul (Some m) args = Inr T \<and> length T = length m \<and>
      (\<forall>i < length m. length (T ! i) = length (m ! i) \<and>
         (\<forall>j < length (m ! i). T ! i ! j =
            (if js_lt (js_abs (m ! i ! j)) (mul (d3_max (map js_abs (m ! i))) (opt_get args 0)) \<or>
                (j < length m \<and>
                 js_lt (js_abs (m ! i ! j)) (mul (d3_max (map js_abs (m ! j))) (opt_get args 0)))
             then NaN else m ! i ! j)))"
    unfolding thresholdMatrix_Some by (simp add: code_suppressed_def)
  show "\<forall>k < length m.
      (d3_max (map js_abs (m ! k)) = Undefined \<longleftrightarrow> (\<forall>x \<in> set (m ! k). js_abs x = NaN)) \<and>
      (d3_max (map js_abs (m ! k)) \<noteq> Undefined \<longrightarrow>
         d3_max (map js_abs (m ! k)) \<in> js_abs ` set (m ! k) \<and>
         (\<forall>x \<in> set (m ! k). \<not> js_gt (js_abs x) (d3_max (map js_abs (m ! k)))))"
  proof (intro allI impI)
    fix k
    have u: "js_abs x \<noteq> Undefined" for x by (cases x) auto
    from d3_max_props[of "map js_abs (m ! k)"] u
    show "(d3_max (map js_abs (m ! k)) = Undefined \<longleftrightarrow> (\<forall>x \<in> set (m ! k). js_abs x = NaN)) \<and>
      (d3_max (map js_abs (m ! k)) \<noteq> Undefined \<longrightarrow>
         d3_max (map js_abs (m ! k)) \<in> js_abs ` set (m ! k) \<and>
         (\<forall>x \<in> set (m ! k). \<not> js_gt (js_abs x) (d3_max (map js_abs (m ! k)))))"
      by simp
  qed
  show "(\<forall>i < length m. length (m ! i) = length m) \<and>
    (\<forall>i < length m. \<forall>j < length m. m ! i ! j = m ! j ! i) \<longrightarrow>
    (\<forall>i < length m. \<forall>j < length m.
       (code_suppressed mul m (opt_get args 0) i j \<longleftrightarrow> spec_suppressed mul m (opt_get args 0) i j) \<and>
       (code_suppressed mul m (opt_get args 0) i j \<longleftrightarrow> code_suppressed mul m (opt_get args 0) j i))"
    unfolding code_suppressed_def spec_suppressed_def by auto
qed

lemma lt4: "(i::nat) < 4 \<longleftrightarrow> i = 0 \<or> i = 1 \<or> i = 2 \<or> i = 3"
  by auto

theorem thresholdMatrix_suppression_witness:
  "\<exists>T. thresholdMatrix paramTimes (Some symMatrix) [Some (PNum (Num (1 / 2)))] = Inr T \<and>
     T ! 0 ! 1 = Num 5 \<and> T ! 0 ! 3 = NaN \<and> T ! 3 ! 0 = NaN \<and>
     d3_max (map js_abs (symMatrix ! 0)) = Num 5 \<and>
     (code_suppressed paramTimes symMatrix (Some (PNum (Num (1 / 2)))) 0 3 \<longleftrightarrow>
      spec_suppressed paramTimes symMatrix (Some (PNum (Num (1 / 2)))) 0 3) \<and>
     (code_suppressed paramTimes symMatrix (Some (PNum (Num (1 / 2)))) 0 3 \<longleftrightarrow>
      code_suppressed paramTimes symMatrix (Some (PNum (Num (1 / 2)))) 3 0)"
proof -
  let ?args = "[Some (PNum (Num (1 / 2)))]"
  have l: "length symMatrix = 4" by (simp add: symMatrix_def)
  have sq: "\<forall>i < length symMatrix. length (symMatrix ! i) = length symMatrix"
    unfolding l lt4 by (simp add: symMatrix_def)
  have sy: "\<forall>i < length symMatrix. \<forall>j < length symMatrix. symMatrix ! i ! j = symMatrix ! j ! i"
    unfolding l lt4 by (simp add: symMatrix_def)
  have o: "opt_get ?args 0 = Some (PNum (Num (1 / 2)))" by (simp add: opt_get_def)
  note t = thresholdMatrix_suppression[of paramTimes symMatrix ?args, unfolded o]
  from t obtain T where T: "thresholdMatrix paramTimes (Some symMatrix) ?args = Inr T"
    and e: "\<forall>i < length symMatrix. length (T ! i) = length (symMatrix ! i) \<and>
         (\<forall>j < length (symMatrix ! i). T ! i ! j =
            (if js_lt (js_abs (symMatrix ! i ! j))
                  (paramTimes (d3_max (map js_abs (symMatrix ! i))) (Some (PNum (Num (1 / 2))))) \<or>
                (j < length symMatrix \<and>
                 js_lt (js_abs (symMatrix ! i ! j))
                  (paramTimes (d3_max (map js_abs (symMatrix ! j))) (Some (PNum (Num (1 / 2))))))
             then NaN else symMatrix ! i ! j))"
    by blast
  have v: "T ! 0 ! 1 = Num 5" "T ! 0 ! 3 = NaN" "T ! 3 ! 0 = NaN"
    using e unfolding l lt4 by (simp_all add: symMatrix_def paramTimes_def js_gt_def)
  have d: "d3_max (map js_abs (symMatrix ! 0)) = Num 5"
    by (simp add: symMatrix_def js_gt_def)
  have z: "(0::nat) < 4" "(3::nat) < 4" by simp_all
  from t sq sy have h: "\<forall>i < length symMatrix. \<forall>j < length symMatrix.
       (code_suppressed paramTimes symMatrix (Some (PNum (Num (1 / 2)))) i j \<longleftrightarrow>
        spec_suppressed paramTimes symMatrix (Some (PNum (Num (1 / 2)))) i j) \<and>
       (code_suppressed paramTimes symMatrix (Some (PNum (Num (1 / 2)))) i j \<longleftrightarrow>
        code_suppressed paramTimes symMatrix (Some (PNum (Num (1 / 2)))) j i)"
    by blast
  note h03 = h[unfolded l, rule_format, OF z]
  with T v d show ?thesis by blast
qed

text \<open>
  C2 as stated fails on a matrix that is not symmetric: with the rows \<open>[0, 1]\<close> and
  \<open>[10, 0]\<close> and the percentage 0.5 the code suppresses entry \<open>(0, 1)\<close>, which the
  criterion of the specification keeps, and keeps entry \<open>(1, 0)\<close>.
\<close>

theorem thresholdMatrix_counterexample:
  "thresholdMatrix paramTimes (Some skewMatrix) [Some (PNum (Num (1 / 2)))] =
     Inr [[NaN, NaN], [Num 10, NaN]] \<and>
   skewMatrix ! 0 ! 1 = Num 1 \<and>
   \<not> spec_suppressed paramTimes skewMatrix (opt_get [Some (PNum (Num (1 / 2)))] 0) 0 1"
  by (simp add: thresholdMatrix_def skewMatrix_def paramTimes_def spec_suppressed_def opt_get_def
      val_get_def js_gt_def upt_rec Let_def)

section \<open>Building the dendrogram\<close>


lemma jsIndex_Some: "jsIndex v = Some k \<longleftrightarrow> v = Num (real k)"
proof
  assume "jsIndex v = Some k"
  then obtain r where v: "v = Num r" and r: "0 \<le> r" "r = of_int \<lfloor>r\<rfloor>" and k: "k = nat \<lfloor>r\<rfloor>"
    by (auto simp: jsIndex_def split: jsval.splits if_splits)
  from r have "0 \<le> \<lfloor>r\<rfloor>" by simp
  with k have "real k = of_int \<lfloor>r\<rfloor>" by simp
  with r v show "v = Num (real k)" by simp
next
  assume "v = Num (real k)"
  then show "jsIndex v = Some k" by (simp add: jsIndex_def)
qed














lemma resolveId_Some:
  assumes "resolveId n tns v = Some r"
  shows "(\<exists>k. r = NodeRef k \<and> k < n \<and> v = Num (real (k + 1))) \<or> (\<exists>t. r = TreeRef t \<and> t \<in> set tns)"
proof (cases "js_gt v (Num (real n))")
  case True
  with assms obtain t where "r = TreeRef t"
    "arr_get_num tns (js_minus (js_minus v 1) (real n)) = Some t"
    by (auto simp: resolveId_def)
  then have "t \<in> set tns"
    by (auto simp: arr_get_num_def arr_get_def split: option.splits if_splits)
  with \<open>r = TreeRef t\<close> show ?thesis by blast
next
  case False
  with assms obtain k where k: "r = NodeRef k" "arr_get_num [0..<n] (js_minus v 1) = Some k"
    by (auto simp: resolveId_def)
  then obtain i where i: "jsIndex (js_minus v 1) = Some i" "i < n" "k = i"
    by (auto simp: arr_get_num_def arr_get_def split: option.splits if_splits)
  then have "js_minus v 1 = Num (real i)" by (simp add: jsIndex_Some)
  then have "v = Num (real (i + 1))" by (cases v) auto
  with k i show ?thesis by blast
qed

lemma resolveId_leaf:
  assumes "k < n" shows "resolveId n tns (Num (real (k + 1))) = Some (NodeRef k)"
proof -
  have "\<not> real n < real (k + 1)" using assms by simp
  moreover have "jsIndex (Num (real (k + 1) - 1)) = Some k"
    using jsIndex_Some[of "Num (real k)" k] by simp
  ultimately show ?thesis using assms
    by (simp add: resolveId_def js_gt_def arr_get_num_def arr_get_def)
qed

lemma linkageStep_state:
  assumes s: "linkageStep n (i, row) (net, tns) = Inr (net', tns')"
    and bnd: "\<forall>t \<in> set tns. t < length (heap net)"
  obtains l r where "resolveId n tns (val_get row 0) = Some l" and "resolveId n tns (val_get row 1) = Some r"
    and "tns' = tns @ [length (heap net)]"
    and "length (heap net') = Suc (length (heap net))"
    and "length (nodes net') = length (nodes net)"
    and "t_children (heap net' ! length (heap net)) = [l, r]"
    and "t_parent (heap net' ! length (heap net)) = None"
    and "\<And>t. t < length (heap net) \<Longrightarrow>
           t_children (heap net' ! t) = t_children (heap net ! t) \<and>
           t_parent (heap net' ! t) =
             (if TreeRef t = l \<or> TreeRef t = r then Some (length (heap net)) else t_parent (heap net ! t))"
    and "\<And>k. k < length (nodes net) \<Longrightarrow>
           n_parent (nodes net' ! k) =
             (if NodeRef k = l \<or> NodeRef k = r then Some (length (heap net)) else n_parent (nodes net ! k))"
proof -
  let ?a = "length (heap net)"
  from s obtain l r where l: "resolveId n tns (val_get row 0) = Some l"
    and r: "resolveId n tns (val_get row 1) = Some r"
    and n': "net' = (setParent r ?a (setParent l ?a (net\<lparr>heap := heap net @ [blankTreeNode]\<rparr>)))
                \<lparr>heap := (heap (setParent r ?a (setParent l ?a (net\<lparr>heap := heap net @ [blankTreeNode]\<rparr>))))
                   [?a := (heap (setParent r ?a (setParent l ?a (net\<lparr>heap := heap net @ [blankTreeNode]\<rparr>))) ! ?a)
                      \<lparr>t_children := [l, r], t_distance := val_get row 2, t_index := Some (i + n)\<rparr>]\<rparr>"
    and t': "tns' = tns @ [?a]"
    unfolding linkageStep_def Let_def by (auto split: option.splits)
  have la: "l \<noteq> TreeRef ?a" using resolveId_Some[OF l] bnd by auto
  have ra: "r \<noteq> TreeRef ?a" using resolveId_Some[OF r] bnd by auto
  show thesis
  proof (rule that[OF l r t'])
    show "length (heap net') = Suc ?a"
      unfolding n' by (cases l; cases r; simp add: setParent_def)
    show "length (nodes net') = length (nodes net)"
      unfolding n' by (cases l; cases r; simp add: setParent_def)
    show "t_children (heap net' ! ?a) = [l, r]"
      unfolding n' by (cases l; cases r; simp add: setParent_def)
    show "t_parent (heap net' ! ?a) = None"
      unfolding n' using la ra
      by (cases l; cases r; simp add: setParent_def blankTreeNode_def nth_list_update nth_append)
  next
    fix t assume "t < ?a"
    then show "t_children (heap net' ! t) = t_children (heap net ! t) \<and>
           t_parent (heap net' ! t) =
             (if TreeRef t = l \<or> TreeRef t = r then Some ?a else t_parent (heap net ! t))"
      unfolding n'
      by (cases l; cases r; auto simp: setParent_def nth_list_update nth_append)
  next
    fix k assume "k < length (nodes net)"
    then show "n_parent (nodes net' ! k) =
             (if NodeRef k = l \<or> NodeRef k = r then Some ?a else n_parent (nodes net ! k))"
      unfolding n'
      by (cases l; cases r; auto simp: setParent_def nth_list_update)
  qed
qed



lemma buildInvD:
  assumes "buildInv net0 rows net tns"
  shows "length (nodes net) = length (nodes net0)" and "distinct tns"
    and "\<forall>t \<in> set tns. t < length (heap net)"
    and "\<forall>k < length (nodes net). \<forall>q. n_parent (nodes net ! k) = Some q \<longrightarrow>
        (q \<in> set tns \<and> NodeRef k \<in> set (t_children (heap net ! q))) \<or>
        (n_parent (nodes net0 ! k) = Some q \<and>
         (\<forall>row \<in> set rows. val_get row 0 \<noteq> Num (real (k + 1)) \<and> val_get row 1 \<noteq> Num (real (k + 1))))"
    and "\<forall>t \<in> set tns. \<forall>q. t_parent (heap net ! t) = Some q \<longrightarrow>
        q \<in> set tns \<and> t < q \<and> TreeRef t \<in> set (t_children (heap net ! q))"
    and "\<forall>t \<in> set tns. \<forall>c. TreeRef c \<in> set (t_children (heap net ! t)) \<longrightarrow> c < t"
proof -
  note a = assms[unfolded buildInv_def]
  from a show "length (nodes net) = length (nodes net0)" by (elim conjE)
  from a show "distinct tns" by (elim conjE)
  from a show "\<forall>t \<in> set tns. t < length (heap net)" by (elim conjE)
  from a show "\<forall>k < length (nodes net). \<forall>q. n_parent (nodes net ! k) = Some q \<longrightarrow>
        (q \<in> set tns \<and> NodeRef k \<in> set (t_children (heap net ! q))) \<or>
        (n_parent (nodes net0 ! k) = Some q \<and>
         (\<forall>row \<in> set rows. val_get row 0 \<noteq> Num (real (k + 1)) \<and> val_get row 1 \<noteq> Num (real (k + 1))))"
    by (elim conjE)
  from a show "\<forall>t \<in> set tns. \<forall>q. t_parent (heap net ! t) = Some q \<longrightarrow>
        q \<in> set tns \<and> t < q \<and> TreeRef t \<in> set (t_children (heap net ! q))" by (elim conjE)
  from a show "\<forall>t \<in> set tns. \<forall>c. TreeRef c \<in> set (t_children (heap net ! t)) \<longrightarrow> c < t"
    by (elim conjE)
qed

lemma linkageStep_inv:
  assumes s: "linkageStep (length (nodes net0)) (i, row) (net, tns) = Inr (net', tns')"
    and inv: "buildInv net0 rows net tns"
  shows "buildInv net0 (rows @ [row]) net' tns'"
proof -
  let ?n = "length (nodes net0)"
  let ?a = "length (heap net)"
  note ln = buildInvD(1)[OF inv] and d = buildInvD(2)[OF inv] and bnd = buildInvD(3)[OF inv]
    and b = buildInvD(4)[OF inv] and c = buildInvD(5)[OF inv] and dd = buildInvD(6)[OF inv]
  from s bnd show ?thesis
  proof (rule linkageStep_state)
    fix l r
    assume l: "resolveId ?n tns (val_get row 0) = Some l"
      and r: "resolveId ?n tns (val_get row 1) = Some r"
      and t': "tns' = tns @ [?a]"
      and lh: "length (heap net') = Suc ?a"
      and ln': "length (nodes net') = length (nodes net)"
      and cha: "t_children (heap net' ! ?a) = [l, r]"
      and pa: "t_parent (heap net' ! ?a) = None"
      and oth: "\<And>t. t < ?a \<Longrightarrow>
           t_children (heap net' ! t) = t_children (heap net ! t) \<and>
           t_parent (heap net' ! t) =
             (if TreeRef t = l \<or> TreeRef t = r then Some ?a else t_parent (heap net ! t))"
      and np: "\<And>k. k < length (nodes net) \<Longrightarrow>
           n_parent (nodes net' ! k) =
             (if NodeRef k = l \<or> NodeRef k = r then Some ?a else n_parent (nodes net ! k))"
    have tl: "t \<in> set tns" if "TreeRef t = l \<or> TreeRef t = r" for t
      using that resolveId_Some[OF l] resolveId_Some[OF r] by auto
    have i1: "length (nodes net') = ?n" using ln ln' by simp
    have i2: "distinct tns'" using d bnd t' by auto
    have i3: "\<forall>t \<in> set tns'. t < length (heap net')"
      using bnd t' lh by auto
    have i4: "\<forall>k < length (nodes net'). \<forall>q. n_parent (nodes net' ! k) = Some q \<longrightarrow>
        (q \<in> set tns' \<and> NodeRef k \<in> set (t_children (heap net' ! q))) \<or>
        (n_parent (nodes net0 ! k) = Some q \<and>
         (\<forall>row \<in> set (rows @ [row]). val_get row 0 \<noteq> Num (real (k + 1)) \<and>
                                        val_get row 1 \<noteq> Num (real (k + 1))))"
    proof (intro allI impI)
      fix k q assume k: "k < length (nodes net')" and q: "n_parent (nodes net' ! k) = Some q"
      from k ln' have kN: "k < length (nodes net)" by simp
      show "(q \<in> set tns' \<and> NodeRef k \<in> set (t_children (heap net' ! q))) \<or>
        (n_parent (nodes net0 ! k) = Some q \<and>
         (\<forall>row \<in> set (rows @ [row]). val_get row 0 \<noteq> Num (real (k + 1)) \<and>
                                        val_get row 1 \<noteq> Num (real (k + 1))))"
      proof (cases "NodeRef k = l \<or> NodeRef k = r")
        case True
        with np[OF kN] q have "q = ?a" by simp
        with True t' cha show ?thesis by auto
      next
        case False
        with np[OF kN] q have old: "n_parent (nodes net ! k) = Some q" by simp
        from b kN old have "(q \<in> set tns \<and> NodeRef k \<in> set (t_children (heap net ! q))) \<or>
          (n_parent (nodes net0 ! k) = Some q \<and>
           (\<forall>row \<in> set rows. val_get row 0 \<noteq> Num (real (k + 1)) \<and> val_get row 1 \<noteq> Num (real (k + 1))))"
          by blast
        then show ?thesis
        proof
          assume a: "q \<in> set tns \<and> NodeRef k \<in> set (t_children (heap net ! q))"
          with bnd have "q < ?a" by blast
          from oth[OF this] a t' show ?thesis by simp
        next
          assume a: "n_parent (nodes net0 ! k) = Some q \<and>
           (\<forall>row \<in> set rows. val_get row 0 \<noteq> Num (real (k + 1)) \<and> val_get row 1 \<noteq> Num (real (k + 1)))"
          from kN ln have kn: "k < ?n" by simp
          have "val_get row 0 \<noteq> Num (real (k + 1))"
          proof
            assume "val_get row 0 = Num (real (k + 1))"
            with l resolveId_leaf[OF kn, of tns] have "l = NodeRef k" by simp
            with False show False by simp
          qed
          moreover have "val_get row 1 \<noteq> Num (real (k + 1))"
          proof
            assume "val_get row 1 = Num (real (k + 1))"
            with r resolveId_leaf[OF kn, of tns] have "r = NodeRef k" by simp
            with False show False by simp
          qed
          ultimately show ?thesis using a by simp
        qed
      qed
    qed
    have i5: "\<forall>t \<in> set tns'. \<forall>q. t_parent (heap net' ! t) = Some q \<longrightarrow>
        q \<in> set tns' \<and> t < q \<and> TreeRef t \<in> set (t_children (heap net' ! q))"
    proof (intro ballI allI impI)
      fix t q assume t: "t \<in> set tns'" and q: "t_parent (heap net' ! t) = Some q"
      from t t' q pa have tt: "t \<in> set tns" by auto
      with bnd have ta: "t < ?a" by blast
      show "q \<in> set tns' \<and> t < q \<and> TreeRef t \<in> set (t_children (heap net' ! q))"
      proof (cases "TreeRef t = l \<or> TreeRef t = r")
        case True
        with oth[OF ta] q have "q = ?a" by simp
        with True t' cha ta show ?thesis by auto
      next
        case False
        with oth[OF ta] q have "t_parent (heap net ! t) = Some q" by simp
        with c tt have a: "q \<in> set tns" "t < q" "TreeRef t \<in> set (t_children (heap net ! q))"
          by blast+
        from a(1) bnd have "q < ?a" by blast
        from oth[OF this] a t' show ?thesis by simp
      qed
    qed
    have i6: "\<forall>t \<in> set tns'. \<forall>c. TreeRef c \<in> set (t_children (heap net' ! t)) \<longrightarrow> c < t"
    proof (intro ballI allI impI)
      fix t c assume t: "t \<in> set tns'" and cm: "TreeRef c \<in> set (t_children (heap net' ! t))"
      show "c < t"
      proof (cases "t = ?a")
        case True
        with cm cha have "TreeRef c = l \<or> TreeRef c = r" by auto
        from tl[OF this] bnd True show ?thesis by auto
      next
        case False
        with t t' have tt: "t \<in> set tns" by simp
        with bnd have "t < ?a" by blast
        from oth[OF this] cm have "TreeRef c \<in> set (t_children (heap net ! t))" by simp
        with dd tt show ?thesis by blast
      qed
    qed
    from i1 i2 i3 i4 i5 i6 show "buildInv net0 (rows @ [row]) net' tns'"
      unfolding buildInv_def by (intro conjI)
  qed
qed




lemma linkageLoop_inv:
  assumes "foldE (linkageStep (length (nodes net0))) irs (net, tns) = Inr (net', tns')"
    and "buildInv net0 rows net tns"
  shows "buildInv net0 (rows @ map snd irs) net' tns'"
  using assms
proof (induction irs arbitrary: net tns rows)
  case Nil
  then show ?case by simp
next
  case (Cons ir irs)
  obtain i row where ir: "ir = (i, row)" by (cases ir)
  from Cons.prems(1) obtain net1 tns1
    where s: "linkageStep (length (nodes net0)) (i, row) (net, tns) = Inr (net1, tns1)"
      and rest: "foldE (linkageStep (length (nodes net0))) irs (net1, tns1) = Inr (net', tns')"
    by (auto simp: ir split: sum.splits)
  from Cons.IH[OF rest linkageStep_inv[OF s Cons.prems(2)]] show ?case by (simp add: ir)
qed

lemma makeNetworkDendrogramTree_wf:
  assumes m: "makeNetworkDendrogramTree net lk = Inr net'" and p: "parentsFromLinkage net lk"
  shows "wfTree net'"
proof -
  from m obtain net1 tns
    where loop: "foldE (linkageStep (length (nodes net))) (zip [0..<length lk] lk) (net, []) = Inr (net1, tns)"
      and n': "net' = net1\<lparr>treeNodes := Some tns\<rparr>"
    by (auto simp: makeNetworkDendrogramTree_def Let_def split: sum.splits prod.splits)
  have "buildInv net [] net []" unfolding buildInv_def by (intro conjI) simp_all
  from linkageLoop_inv[OF loop this] have inv: "buildInv net lk net1 tns" by simp
  note ln = buildInvD(1)[OF inv] and d = buildInvD(2)[OF inv] and bnd = buildInvD(3)[OF inv]
    and b = buildInvD(4)[OF inv] and c = buildInvD(5)[OF inv] and dd = buildInvD(6)[OF inv]
  have b': "\<forall>k < length (nodes net1). \<forall>q. n_parent (nodes net1 ! k) = Some q \<longrightarrow>
        q \<in> set tns \<and> NodeRef k \<in> set (t_children (heap net1 ! q))"
  proof (intro allI impI)
    fix k q assume k: "k < length (nodes net1)" and q: "n_parent (nodes net1 ! k) = Some q"
    with b have "(q \<in> set tns \<and> NodeRef k \<in> set (t_children (heap net1 ! q))) \<or>
        (n_parent (nodes net ! k) = Some q \<and>
         (\<forall>row \<in> set lk. val_get row 0 \<noteq> Num (real (k + 1)) \<and> val_get row 1 \<noteq> Num (real (k + 1))))"
      by blast
    then show "q \<in> set tns \<and> NodeRef k \<in> set (t_children (heap net1 ! q))"
    proof
      assume "q \<in> set tns \<and> NodeRef k \<in> set (t_children (heap net1 ! q))"
      then show ?thesis .
    next
      assume a: "n_parent (nodes net ! k) = Some q \<and>
         (\<forall>row \<in> set lk. val_get row 0 \<noteq> Num (real (k + 1)) \<and> val_get row 1 \<noteq> Num (real (k + 1)))"
      from k ln have "k < length (nodes net)" by simp
      with p a have "\<exists>row \<in> set lk. val_get row 0 = Num (real (k + 1)) \<or> val_get row 1 = Num (real (k + 1))"
        unfolding parentsFromLinkage_def by auto
      with a show ?thesis by blast
    qed
  qed
  have h: "heap net' = heap net1" "nodes net' = nodes net1" "treeNodes net' = Some tns"
    by (simp_all add: n')
  show ?thesis unfolding wfTree_def h
    by (intro exI[of _ tns] conjI refl d bnd b' c dd)
qed

section \<open>Flattening the dendrogram\<close>


lemma reparentStep_props:
  assumes "p < length (heap net)" and "c \<noteq> TreeRef p"
  shows "length (heap (reparentStep p c net)) = length (heap net)"
    and "length (nodes (reparentStep p c net)) = length (nodes net)"
    and "treeNodes (reparentStep p c net) = treeNodes net"
    and "t_children (heap (reparentStep p c net) ! p) = t_children (heap net ! p) @ [c]"
    and "t_parent (heap (reparentStep p c net) ! p) = t_parent (heap net ! p)"
    and "\<And>t. t < length (heap net) \<Longrightarrow> t \<noteq> p \<Longrightarrow>
           t_children (heap (reparentStep p c net) ! t) = t_children (heap net ! t) \<and>
           t_parent (heap (reparentStep p c net) ! t) =
             (if c = TreeRef t then Some p else t_parent (heap net ! t))"
    and "\<And>k. k < length (nodes net) \<Longrightarrow>
           n_parent (nodes (reparentStep p c net) ! k) =
             (if c = NodeRef k then Some p else n_parent (nodes net ! k))"
  using assms
  by (cases c; auto simp: reparentStep_def pushChild_def setChildren_def setParent_def nth_list_update)+

lemma reparent_fold:
  assumes "p < length (heap net)" and "TreeRef p \<notin> set cs"
  shows "length (heap (fold (reparentStep p) cs net)) = length (heap net) \<and>
     length (nodes (fold (reparentStep p) cs net)) = length (nodes net) \<and>
     treeNodes (fold (reparentStep p) cs net) = treeNodes net \<and>
     t_children (heap (fold (reparentStep p) cs net) ! p) = t_children (heap net ! p) @ cs \<and>
     t_parent (heap (fold (reparentStep p) cs net) ! p) = t_parent (heap net ! p) \<and>
     (\<forall>t < length (heap net). t \<noteq> p \<longrightarrow>
         t_children (heap (fold (reparentStep p) cs net) ! t) = t_children (heap net ! t) \<and>
         t_parent (heap (fold (reparentStep p) cs net) ! t) =
           (if TreeRef t \<in> set cs then Some p else t_parent (heap net ! t))) \<and>
     (\<forall>k < length (nodes net).
         n_parent (nodes (fold (reparentStep p) cs net) ! k) =
           (if NodeRef k \<in> set cs then Some p else n_parent (nodes net ! k)))"
  using assms(2)
proof (induction cs rule: rev_induct)
  case Nil
  show ?case by simp
next
  case (snoc c cs)
  let ?n = "fold (reparentStep p) cs net"
  from snoc have ih: "length (heap ?n) = length (heap net)"
     "length (nodes ?n) = length (nodes net)"
     "treeNodes ?n = treeNodes net"
     "t_children (heap ?n ! p) = t_children (heap net ! p) @ cs"
     "t_parent (heap ?n ! p) = t_parent (heap net ! p)"
     "\<forall>t < length (heap net). t \<noteq> p \<longrightarrow>
         t_children (heap ?n ! t) = t_children (heap net ! t) \<and>
         t_parent (heap ?n ! t) = (if TreeRef t \<in> set cs then Some p else t_parent (heap net ! t))"
     "\<forall>k < length (nodes net).
         n_parent (nodes ?n ! k) = (if NodeRef k \<in> set cs then Some p else n_parent (nodes net ! k))"
    by simp_all
  from assms(1) ih(1) have p: "p < length (heap ?n)" by simp
  from snoc.prems have c: "c \<noteq> TreeRef p" by auto
  note st = reparentStep_props[OF p c]
  have f: "fold (reparentStep p) (cs @ [c]) net = reparentStep p c ?n" by simp
  show ?case unfolding f
  proof (intro conjI allI impI)
    show "length (heap (reparentStep p c ?n)) = length (heap net)" using st(1) ih(1) by simp
    show "length (nodes (reparentStep p c ?n)) = length (nodes net)" using st(2) ih(2) by simp
    show "treeNodes (reparentStep p c ?n) = treeNodes net" using st(3) ih(3) by simp
    show "t_children (heap (reparentStep p c ?n) ! p) = t_children (heap net ! p) @ cs @ [c]"
      using st(4) ih(4) by simp
    show "t_parent (heap (reparentStep p c ?n) ! p) = t_parent (heap net ! p)"
      using st(5) ih(5) by simp
  next
    fix t assume t: "t < length (heap net)" "t \<noteq> p"
    with ih(1) have "t < length (heap ?n)" by simp
    from st(6)[OF this t(2)] ih(6) t
    show "t_children (heap (reparentStep p c ?n) ! t) = t_children (heap net ! t)"
      and "t_parent (heap (reparentStep p c ?n) ! t) =
           (if TreeRef t \<in> set (cs @ [c]) then Some p else t_parent (heap net ! t))"
      by auto
  next
    fix k assume k: "k < length (nodes net)"
    with ih(2) have "k < length (nodes ?n)" by simp
    from st(7)[OF this] ih(7) k
    show "n_parent (nodes (reparentStep p c ?n) ! k) =
           (if NodeRef k \<in> set (cs @ [c]) then Some p else n_parent (nodes net ! k))"
      by auto
  qed
qed



lemma indexOf_Some:
  "indexOf xs v = Some i \<Longrightarrow> i < length xs \<and> xs ! i = v"
proof (induction xs arbitrary: i)
  case Nil
  then show ?case by simp
next
  case (Cons x xs)
  then show ?case by (cases i) (auto split: if_splits)
qed

lemma indexOf_None: "indexOf xs v = None \<longleftrightarrow> v \<notin> set xs"
  by (induction xs) auto

lemma indexOf_mem: "v \<in> set xs \<Longrightarrow> \<exists>i. indexOf xs v = Some i"
  using indexOf_None[of xs v] by (cases "indexOf xs v") auto

lemma splice1_remove1: "indexOf xs v = Some i \<Longrightarrow> splice1 xs (Some i) = remove1 v xs"
proof (induction xs arbitrary: i)
  case Nil
  then show ?case by simp
next
  case (Cons x xs)
  show ?case
  proof (cases "x = v")
    case True
    with Cons.prems show ?thesis by (simp add: splice1_def)
  next
    case False
    with Cons.prems obtain j where j: "indexOf xs v = Some j" "i = Suc j" by auto
    from Cons.IH[OF j(1)] False j show ?thesis by (simp add: splice1_def)
  qed
qed

lemma set_uniq: "set (uniq acc xs) = set acc \<union> set xs"
  by (induction xs arbitrary: acc) auto

lemma distinct_uniq: "distinct acc \<Longrightarrow> distinct (uniq acc xs)"
  by (induction xs arbitrary: acc) auto

lemma length_getClusters: "length (getClusters net) = card (set (map n_parent (nodes net)))"
proof -
  have "distinct (getClusters net)" unfolding getClusters_def by (rule distinct_uniq) simp
  then have "length (getClusters net) = card (set (getClusters net))"
    by (simp add: distinct_card)
  then show ?thesis by (simp add: getClusters_def set_uniq)
qed

lemma set_getClusters: "set (getClusters net) = set (map n_parent (nodes net))"
  by (simp add: getClusters_def set_uniq)

lemma mapE_length: "mapE f xs = Inr ys \<Longrightarrow> length ys = length xs"
  by (auto simp: mapE_Inr dest: map_eq_imp_length_eq)

lemma reparent_lambda: "(\<lambda>child n. pushChild p child (setParent child p n)) = reparentStep p"
  by (simp add: reparentStep_def fun_eq_iff)

lemma squeezeCluster_Inr:
  assumes "squeezeCluster net cl = Inr net'"
  obtains X P tns where "Some X \<in> set cl" and "t_parent (heap net ! X) = Some P"
    and "treeNodes net = Some tns"
    and "net' = fold (reparentStep P)
           (t_children (heap ((setChildren P (splice1 (t_children (heap net ! P))
                 (indexOf (t_children (heap net ! P)) (TreeRef X))) net)
                 \<lparr>treeNodes := Some (splice1 tns (indexOf tns X))\<rparr>) ! X))
           ((setChildren P (splice1 (t_children (heap net ! P))
                 (indexOf (t_children (heap net ! P)) (TreeRef X))) net)
                 \<lparr>treeNodes := Some (splice1 tns (indexOf tns X))\<rparr>)"
proof -
  from assms obtain ds where ds: "mapE (\<lambda>clust. case clust of None \<Rightarrow> Inl TypeError
                                  | Some c \<Rightarrow> Inr (t_distance (heap net ! c))) cl = Inr ds"
    by (auto simp: squeezeCluster_def split: sum.splits)
  with assms obtain i where i: "indexOf ds (d3_min ds) = Some i"
    by (auto simp: squeezeCluster_def split: option.splits)
  with ds assms obtain X where X: "cl ! i = Some X"
    by (auto simp: squeezeCluster_def split: option.splits)
  with i ds assms obtain P where P: "t_parent (heap net ! X) = Some P"
    by (auto simp: squeezeCluster_def split: option.splits)
  with X i ds assms obtain tns where tns: "treeNodes net = Some tns"
    by (auto simp: squeezeCluster_def split: option.splits)
  from indexOf_Some[OF i] mapE_length[OF ds] have "i < length cl" by simp
  with X have m: "Some X \<in> set cl" by (metis nth_mem)
  from assms ds i X P tns
  have "net' = fold (reparentStep P)
           (t_children (heap ((setChildren P (splice1 (t_children (heap net ! P))
                 (indexOf (t_children (heap net ! P)) (TreeRef X))) net)
                 \<lparr>treeNodes := Some (splice1 tns (indexOf tns X))\<rparr>) ! X))
           ((setChildren P (splice1 (t_children (heap net ! P))
                 (indexOf (t_children (heap net ! P)) (TreeRef X))) net)
                 \<lparr>treeNodes := Some (splice1 tns (indexOf tns X))\<rparr>)"
    by (simp add: squeezeCluster_def Let_def reparent_lambda)
  with m P tns show thesis by (rule that)
qed



lemma wfTreeD:
  assumes "wfTree net" and "treeNodes net = Some tns"
  shows "distinct tns" and "\<forall>t \<in> set tns. t < length (heap net)"
    and "\<forall>k < length (nodes net). \<forall>q. n_parent (nodes net ! k) = Some q \<longrightarrow>
           q \<in> set tns \<and> NodeRef k \<in> set (t_children (heap net ! q))"
    and "\<forall>t \<in> set tns. \<forall>q. t_parent (heap net ! t) = Some q \<longrightarrow>
           q \<in> set tns \<and> t < q \<and> TreeRef t \<in> set (t_children (heap net ! q))"
    and "\<forall>t \<in> set tns. \<forall>c. TreeRef c \<in> set (t_children (heap net ! t)) \<longrightarrow> c < t"
proof -
  from assms(1)[unfolded wfTree_def] obtain tns0 where a: "treeNodes net = Some tns0 \<and> distinct tns0 \<and>
        (\<forall>t \<in> set tns0. t < length (heap net)) \<and>
        (\<forall>k < length (nodes net). \<forall>q. n_parent (nodes net ! k) = Some q \<longrightarrow>
           q \<in> set tns0 \<and> NodeRef k \<in> set (t_children (heap net ! q))) \<and>
        (\<forall>t \<in> set tns0. \<forall>q. t_parent (heap net ! t) = Some q \<longrightarrow>
           q \<in> set tns0 \<and> t < q \<and> TreeRef t \<in> set (t_children (heap net ! q))) \<and>
        (\<forall>t \<in> set tns0. \<forall>c. TreeRef c \<in> set (t_children (heap net ! t)) \<longrightarrow> c < t)" ..
  with assms(2) have e: "tns0 = tns" by simp
  from a show "distinct tns" unfolding e by (elim conjE)
  from a show "\<forall>t \<in> set tns. t < length (heap net)" unfolding e by (elim conjE)
  from a show "\<forall>k < length (nodes net). \<forall>q. n_parent (nodes net ! k) = Some q \<longrightarrow>
           q \<in> set tns \<and> NodeRef k \<in> set (t_children (heap net ! q))" unfolding e by (elim conjE)
  from a show "\<forall>t \<in> set tns. \<forall>q. t_parent (heap net ! t) = Some q \<longrightarrow>
           q \<in> set tns \<and> t < q \<and> TreeRef t \<in> set (t_children (heap net ! q))" unfolding e by (elim conjE)
  from a show "\<forall>t \<in> set tns. \<forall>c. TreeRef c \<in> set (t_children (heap net ! t)) \<longrightarrow> c < t"
    unfolding e by (elim conjE)
qed



text \<open>The state after squeezing cluster \<open>X\<close> with parent \<open>P\<close> out of a well-formed tree.\<close>

lemma squeezeCluster_state:
  assumes wf: "wfTree net" and sq: "squeezeCluster net (getClusters net) = Inr net'"
  obtains X P tns where "treeNodes net = Some tns" and "X \<in> set tns" and "P \<in> set tns" and "X < P"
    and "Some X \<in> set (map n_parent (nodes net))"
    and "length (heap net') = length (heap net)" and "length (nodes net') = length (nodes net)"
    and "treeNodes net' = Some (remove1 X tns)"
    and "t_children (heap net' ! P) =
           remove1 (TreeRef X) (t_children (heap net ! P)) @ t_children (heap net ! X)"
    and "t_parent (heap net' ! P) = t_parent (heap net ! P)"
    and "\<And>t. t < length (heap net) \<Longrightarrow> t \<noteq> P \<Longrightarrow>
           t_children (heap net' ! t) = t_children (heap net ! t) \<and>
           t_parent (heap net' ! t) =
             (if TreeRef t \<in> set (t_children (heap net ! X)) then Some P else t_parent (heap net ! t))"
    and "\<And>k. k < length (nodes net) \<Longrightarrow>
           n_parent (nodes net' ! k) =
             (if NodeRef k \<in> set (t_children (heap net ! X)) then Some P else n_parent (nodes net ! k))"
proof -
  from sq obtain X P tns where X: "Some X \<in> set (getClusters net)"
    and P: "t_parent (heap net ! X) = Some P"
    and tns: "treeNodes net = Some tns"
    and net': "net' = fold (reparentStep P)
           (t_children (heap ((setChildren P (splice1 (t_children (heap net ! P))
                 (indexOf (t_children (heap net ! P)) (TreeRef X))) net)
                 \<lparr>treeNodes := Some (splice1 tns (indexOf tns X))\<rparr>) ! X))
           ((setChildren P (splice1 (t_children (heap net ! P))
                 (indexOf (t_children (heap net ! P)) (TreeRef X))) net)
                 \<lparr>treeNodes := Some (splice1 tns (indexOf tns X))\<rparr>)"
    by (rule squeezeCluster_Inr)
  note w = wfTreeD[OF wf tns]
  from X have XS: "Some X \<in> set (map n_parent (nodes net))" by (simp add: set_getClusters)
  then obtain k0 where k0: "k0 < length (nodes net)" "n_parent (nodes net ! k0) = Some X"
    by (auto simp: in_set_conv_nth)
  with w(3) have Xt: "X \<in> set tns" by blast
  with w(4) P have Pt: "P \<in> set tns" and XP: "X < P"
    and XinP: "TreeRef X \<in> set (t_children (heap net ! P))"
    by blast+
  from w(2) Pt have PH: "P < length (heap net)" by blast
  let ?cs = "t_children (heap net ! X)"
  let ?chP = "remove1 (TreeRef X) (t_children (heap net ! P))"
  from indexOf_mem[OF XinP] obtain i where "indexOf (t_children (heap net ! P)) (TreeRef X) = Some i" ..
  then have spP: "splice1 (t_children (heap net ! P)) (indexOf (t_children (heap net ! P)) (TreeRef X)) = ?chP"
    by (simp add: splice1_remove1)
  from indexOf_mem[OF Xt] obtain j where "indexOf tns X = Some j" ..
  then have spT: "splice1 tns (indexOf tns X) = remove1 X tns"
    by (simp add: splice1_remove1)
  define n2 where "n2 = (setChildren P ?chP net)\<lparr>treeNodes := Some (remove1 X tns)\<rparr>"
  have h2: "heap n2 = (heap net)[P := (heap net ! P)\<lparr>t_children := ?chP\<rparr>]"
    by (simp add: n2_def setChildren_def)
  have n2X: "heap n2 ! X = heap net ! X" using XP by (simp add: h2)
  have n2P: "t_children (heap n2 ! P) = ?chP" "t_parent (heap n2 ! P) = t_parent (heap net ! P)"
    using PH by (simp_all add: h2)
  have n2o: "heap n2 ! t = heap net ! t" if "t \<noteq> P" for t using that by (simp add: h2)
  have n2n: "nodes n2 = nodes net" by (simp add: n2_def setChildren_def)
  have n2t: "treeNodes n2 = Some (remove1 X tns)" by (simp add: n2_def setChildren_def)
  have n2l: "length (heap n2) = length (heap net)" by (simp add: h2)
  have n': "net' = fold (reparentStep P) ?cs n2"
    unfolding net' spP spT n2_def[symmetric] n2X ..
  have notP: "TreeRef P \<notin> set ?cs"
  proof
    assume "TreeRef P \<in> set ?cs"
    with w(5) Xt have "P < X" by blast
    with XP show False by simp
  qed
  from PH have PH2: "P < length (heap n2)" by (simp add: n2l)
  note rf = reparent_fold[OF PH2 notP, folded n']
  show thesis
  proof (rule that[of tns X P])
    show "treeNodes net = Some tns" by (rule tns)
    show "X \<in> set tns" by (rule Xt)
    show "P \<in> set tns" by (rule Pt)
    show "X < P" by (rule XP)
    show "Some X \<in> set (map n_parent (nodes net))" by (rule XS)
    show "length (heap net') = length (heap net)" using rf n2l by simp
    show "length (nodes net') = length (nodes net)" using rf n2n by simp
    show "treeNodes net' = Some (remove1 X tns)" using rf n2t by simp
    show "t_children (heap net' ! P) = ?chP @ ?cs" using rf n2P by simp
    show "t_parent (heap net' ! P) = t_parent (heap net ! P)" using rf n2P by simp
  next
    fix t assume t: "t < length (heap net)" "t \<noteq> P"
    from rf have "\<forall>t < length (heap n2). t \<noteq> P \<longrightarrow>
         t_children (heap net' ! t) = t_children (heap n2 ! t) \<and>
         t_parent (heap net' ! t) = (if TreeRef t \<in> set ?cs then Some P else t_parent (heap n2 ! t))"
      by blast
    with t n2l n2o[OF t(2)]
    show "t_children (heap net' ! t) = t_children (heap net ! t) \<and>
           t_parent (heap net' ! t) = (if TreeRef t \<in> set ?cs then Some P else t_parent (heap net ! t))"
      by simp
  next
    fix k assume k: "k < length (nodes net)"
    from rf have "\<forall>k < length (nodes n2).
         n_parent (nodes net' ! k) = (if NodeRef k \<in> set ?cs then Some P else n_parent (nodes n2 ! k))"
      by blast
    with k n2n
    show "n_parent (nodes net' ! k) = (if NodeRef k \<in> set ?cs then Some P else n_parent (nodes net ! k))"
      by simp
  qed
qed



lemma squeezeCluster_wf:
  assumes wf: "wfTree net" and sq: "squeezeCluster net (getClusters net) = Inr net'"
  shows "wfTree net'"
  using wf sq
proof (rule squeezeCluster_state)
  fix X P tns
  let ?N = "length (nodes net)"
  let ?H = "length (heap net)"
  let ?cs = "t_children (heap net ! X)"
  let ?chP = "remove1 (TreeRef X) (t_children (heap net ! P))"
  let ?tns' = "remove1 X tns"
  assume tns: "treeNodes net = Some tns" and Xt: "X \<in> set tns" and Pt: "P \<in> set tns" and XP: "X < P"
    and lh: "length (heap net') = ?H" and ln: "length (nodes net') = ?N"
    and t': "treeNodes net' = Some ?tns'"
    and chP': "t_children (heap net' ! P) = ?chP @ ?cs"
    and pP': "t_parent (heap net' ! P) = t_parent (heap net ! P)"
    and oth: "\<And>t. t < ?H \<Longrightarrow> t \<noteq> P \<Longrightarrow>
           t_children (heap net' ! t) = t_children (heap net ! t) \<and>
           t_parent (heap net' ! t) = (if TreeRef t \<in> set ?cs then Some P else t_parent (heap net ! t))"
    and np: "\<And>k. k < ?N \<Longrightarrow>
           n_parent (nodes net' ! k) = (if NodeRef k \<in> set ?cs then Some P else n_parent (nodes net ! k))"
  note w = wfTreeD[OF wf tns]
  have st': "set ?tns' = set tns - {X}" and d': "distinct ?tns'"
    using w(1) by simp_all
  have P': "P \<in> set ?tns'" using Pt XP st' by simp
  have subP: "set ?chP \<subseteq> set (t_children (heap net ! P))"
    by (rule set_remove1_subset)
  have mem: "r \<in> set (t_children (heap net' ! q))"
    if "q \<in> set ?tns'" "r \<in> set (t_children (heap net ! q))" "r \<noteq> TreeRef X" for q r
  proof (cases "q = P")
    case True
    from that(2,3) True have "r \<in> set ?chP" by simp
    with True show ?thesis by (simp add: chP')
  next
    case False
    from that(1) st' have "q \<in> set tns" by simp
    with w(2) have "q < ?H" by blast
    from oth[OF this False] that(2) show ?thesis by simp
  qed
  have wfa: "\<forall>t \<in> set ?tns'. t < length (heap net')"
  proof
    fix t assume "t \<in> set ?tns'"
    with st' have "t \<in> set tns" by simp
    with w(2) lh show "t < length (heap net')" by simp
  qed
  have wfb: "\<forall>k < length (nodes net'). \<forall>q. n_parent (nodes net' ! k) = Some q \<longrightarrow>
           q \<in> set ?tns' \<and> NodeRef k \<in> set (t_children (heap net' ! q))"
  proof (intro allI impI)
    fix k q assume k: "k < length (nodes net')" and q: "n_parent (nodes net' ! k) = Some q"
    from k ln have kN: "k < ?N" by simp
    show "q \<in> set ?tns' \<and> NodeRef k \<in> set (t_children (heap net' ! q))"
    proof (cases "NodeRef k \<in> set ?cs")
      case True
      with np[OF kN] q have "q = P" by simp
      with True P' chP' show ?thesis by simp
    next
      case False
      with np[OF kN] q have old: "n_parent (nodes net ! k) = Some q" by simp
      with w(3) kN have qt: "q \<in> set tns" and km: "NodeRef k \<in> set (t_children (heap net ! q))"
        by blast+
      from km False have "q \<noteq> X" by auto
      with qt st' have q': "q \<in> set ?tns'" by simp
      have "NodeRef k \<noteq> TreeRef X" by simp
      from mem[OF q' km this] q' show ?thesis by simp
    qed
  qed
  have wfc: "\<forall>t \<in> set ?tns'. \<forall>q. t_parent (heap net' ! t) = Some q \<longrightarrow>
           q \<in> set ?tns' \<and> t < q \<and> TreeRef t \<in> set (t_children (heap net' ! q))"
  proof (intro ballI allI impI)
    fix t q assume t: "t \<in> set ?tns'" and q: "t_parent (heap net' ! t) = Some q"
    from t st' have tt: "t \<in> set tns" and tX: "t \<noteq> X" by simp_all
    from tt w(2) have tH: "t < ?H" by blast
    show "q \<in> set ?tns' \<and> t < q \<and> TreeRef t \<in> set (t_children (heap net' ! q))"
    proof (cases "t \<noteq> P \<and> TreeRef t \<in> set ?cs")
      case True
      then have tP: "t \<noteq> P" and tc: "TreeRef t \<in> set ?cs" by simp_all
      from oth[OF tH tP] q tc have qP: "q = P" by simp
      from w(5) Xt tc have "t < X" by blast
      with XP have "t < P" by simp
      with qP P' tc chP' show ?thesis by simp
    next
      case False
      have old: "t_parent (heap net ! t) = Some q"
      proof (cases "t = P")
        case True
        with q pP' show ?thesis by simp
      next
        case neq: False
        with False have "TreeRef t \<notin> set ?cs" by simp
        with oth[OF tH neq] q show ?thesis by simp
      qed
      with w(4) tt have qt: "q \<in> set tns" and tq: "t < q"
        and tm: "TreeRef t \<in> set (t_children (heap net ! q))" by blast+
      have "q \<noteq> X"
      proof
        assume qX: "q = X"
        with tm have "TreeRef t \<in> set ?cs" by simp
        with False have "t = P" by simp
        with tq qX XP show False by simp
      qed
      with qt st' have q': "q \<in> set ?tns'" by simp
      from tX have "TreeRef t \<noteq> TreeRef X" by simp
      from mem[OF q' tm this] q' tq show ?thesis by simp
    qed
  qed
  have wfd: "\<forall>t \<in> set ?tns'. \<forall>c. TreeRef c \<in> set (t_children (heap net' ! t)) \<longrightarrow> c < t"
  proof (intro ballI allI impI)
    fix t c assume t: "t \<in> set ?tns'" and cm: "TreeRef c \<in> set (t_children (heap net' ! t))"
    from t st' have tt: "t \<in> set tns" by simp
    from tt w(2) have tH: "t < ?H" by blast
    show "c < t"
    proof (cases "t = P")
      case True
      with cm chP' have "TreeRef c \<in> set ?chP \<or> TreeRef c \<in> set ?cs" by simp
      then show ?thesis
      proof
        assume "TreeRef c \<in> set ?chP"
        with subP have "TreeRef c \<in> set (t_children (heap net ! P))" by blast
        with w(5) Pt True show ?thesis by blast
      next
        assume "TreeRef c \<in> set ?cs"
        with w(5) Xt have "c < X" by blast
        with XP True show ?thesis by simp
      qed
    next
      case False
      from oth[OF tH False] cm have "TreeRef c \<in> set (t_children (heap net ! t))" by simp
      with w(5) tt show ?thesis by blast
    qed
  qed
  from t' d' wfa wfb wfc wfd show "wfTree net'" unfolding wfTree_def by blast
qed

lemma squeezeCluster_shrinks:
  assumes wf: "wfTree net" and sq: "squeezeCluster net (getClusters net) = Inr net'"
  shows "length (the (treeNodes net')) < length (the (treeNodes net))"
  using wf sq
proof (rule squeezeCluster_state)
  fix X P tns
  assume "treeNodes net = Some tns" and Xt: "X \<in> set tns" and "treeNodes net' = Some (remove1 X tns)"
  moreover from Xt have "0 < length tns" by (rule length_pos_if_in_set)
  ultimately show ?thesis by (simp add: length_remove1)
qed

lemma squeezeCluster_count:
  assumes wf: "wfTree net" and sq: "squeezeCluster net (getClusters net) = Inr net'"
  shows "length (getClusters net') \<le> length (getClusters net)"
  using wf sq
proof (rule squeezeCluster_state)
  fix X P tns
  let ?N = "length (nodes net)"
  let ?cs = "t_children (heap net ! X)"
  let ?S = "set (map n_parent (nodes net))"
  let ?S' = "set (map n_parent (nodes net'))"
  assume tns: "treeNodes net = Some tns" and XS: "Some X \<in> ?S"
    and ln: "length (nodes net') = ?N"
    and np: "\<And>k. k < ?N \<Longrightarrow>
           n_parent (nodes net' ! k) = (if NodeRef k \<in> set ?cs then Some P else n_parent (nodes net ! k))"
  note w = wfTreeD[OF wf tns]
  have sub: "?S' \<subseteq> insert (Some P) (?S - {Some X})"
  proof
    fix p assume "p \<in> ?S'"
    then obtain k where k: "k < length (nodes net')" "p = n_parent (nodes net' ! k)"
      by (auto simp: in_set_conv_nth)
    with ln have kN: "k < ?N" by simp
    show "p \<in> insert (Some P) (?S - {Some X})"
    proof (cases "NodeRef k \<in> set ?cs")
      case True
      with np[OF kN] k show ?thesis by simp
    next
      case False
      with np[OF kN] k have p: "p = n_parent (nodes net ! k)" by simp
      have "p \<noteq> Some X"
      proof
        assume "p = Some X"
        with p have "n_parent (nodes net ! k) = Some X" by simp
        with w(3) kN have "NodeRef k \<in> set ?cs" by blast
        with False show False ..
      qed
      moreover from kN have "nodes net ! k \<in> set (nodes net)" by (rule nth_mem)
      then have "p \<in> ?S" unfolding p by simp
      ultimately show ?thesis by simp
    qed
  qed
  have "card ?S' \<le> card (insert (Some P) (?S - {Some X}))"
    by (rule card_mono[OF _ sub]) simp
  also have "\<dots> \<le> Suc (card (?S - {Some X}))"
    by (simp add: card_insert_if)
  also have "\<dots> = card ?S"
    using XS by (intro card_Suc_Diff1) simp_all
  finally show ?thesis
    by (simp add: length_getClusters)
qed



lemma flattenLoop_total:
  assumes "wfTree net"
  shows "\<exists>r. flattenLoop net K = Some r \<and> wfTree (outcome r) \<and>
           length (getClusters (outcome r)) \<le> length (getClusters net) \<and>
           (case r of Inl (e, n) \<Rightarrow> e = TypeError \<and> K < int (length (getClusters n))
                    | Inr n \<Rightarrow> int (length (getClusters n)) \<le> K)"
  using assms
proof (induction "length (the (treeNodes net))" arbitrary: net rule: less_induct)
  case less
  show ?case
  proof (cases "K < int (length (getClusters net))")
    case False
    then have "flattenLoop net K = Some (Inr net)"
      by (subst flattenLoop.simps) simp
    with less.prems False show ?thesis by (simp add: outcome_def)
  next
    case True
    show ?thesis
    proof (cases "squeezeCluster net (getClusters net)")
      case (Inl e)
      with True have "flattenLoop net K = Some (Inl (e, net))"
        by (subst flattenLoop.simps) simp
      with less.prems True squeezeCluster_error[OF Inl] show ?thesis by (simp add: outcome_def)
    next
      case (Inr net1)
      with True have f: "flattenLoop net K = flattenLoop net1 K"
        by (subst flattenLoop.simps) simp
      note w1 = squeezeCluster_wf[OF less.prems Inr]
      note s1 = squeezeCluster_shrinks[OF less.prems Inr]
      note c1 = squeezeCluster_count[OF less.prems Inr]
      from less.hyps[OF s1 w1] obtain r where r: "flattenLoop net1 K = Some r" "wfTree (outcome r)"
        "length (getClusters (outcome r)) \<le> length (getClusters net1)"
        "(case r of Inl (e, n) \<Rightarrow> e = TypeError \<and> K < int (length (getClusters n))
                    | Inr n \<Rightarrow> int (length (getClusters n)) \<le> K)"
        by blast
      from r(3) c1 have "length (getClusters (outcome r)) \<le> length (getClusters net)" by simp
      with r f show ?thesis by auto
    qed
  qed
qed

section \<open>Cluster counts\<close>


lemma getClusters_nonempty: "nodes net \<noteq> [] \<Longrightarrow> 0 < length (getClusters net)"
  by (simp add: length_getClusters card_gt_0_iff)

lemma flatten_nonpositive:
  assumes wf: "wfTree net" and ne: "nodes net \<noteq> []" and K: "K < 1"
  shows "\<exists>net'. flattenDendrogramTree net K = Some (Inl (TypeError, net'))"
proof -
  from flattenLoop_total[OF wf, of K] obtain r where r: "flattenLoop net K = Some r"
    and c: "(case r of Inl (e, n) \<Rightarrow> e = TypeError \<and> K < int (length (getClusters n))
                    | Inr n \<Rightarrow> int (length (getClusters n)) \<le> K)"
    by blast
  show ?thesis
  proof (cases r)
    case (Inl a)
    with c r show ?thesis by (cases a) (simp add: flattenDendrogramTree_def)
  next
    case (Inr n)
    from flattenLoop_frame[OF r] Inr have "treeFrame net n" by simp
    from treeFrame_fields(16)[OF this] ne have "nodes n \<noteq> []" by auto
    from getClusters_nonempty[OF this] have "1 \<le> int (length (getClusters n))" by linarith
    moreover from c Inr have "int (length (getClusters n)) \<le> K" by simp
    ultimately have False using K by linarith
    then show ?thesis ..
  qed
qed

lemma setNumClusters_total:
  assumes l: "linkage net = Some lk" and p: "parentsFromLinkage net lk"
  shows "\<exists>r. setNumClusters net K = Some r"
proof (cases "makeNetworkDendrogramTree net lk")
  case (Inl e)
  with l show ?thesis by (simp add: setNumClusters_def)
next
  case (Inr net1)
  from flattenLoop_total[OF makeNetworkDendrogramTree_wf[OF Inr p], of K]
  obtain r where "flattenLoop net1 K = Some r" by blast
  with l Inr show ?thesis
    by (cases r) (simp_all add: setNumClusters_def flattenDendrogramTree_def)
qed

text \<open>
  C7 (as amended). Nothing checks the cluster count. With a count below 1,
  \<^verbatim>\<open>setNumClusters\<close> on a network without linkage data returns and changes nothing; on a
  network with linkage data and at least one node, whose nodes with a parent are named
  by the linkage table, it throws a \<^verbatim>\<open>TypeError\<close>; and the reduction itself, on a tree of
  the shape the builder makes over at least one node, throws a \<^verbatim>\<open>TypeError\<close>.
\<close>

theorem nonpositive_cluster_count:
  assumes "K < 1"
  shows "(linkage net = None \<longrightarrow> setNumClusters net K = Some (Inr net)) \<and>
         (\<forall>lk. linkage net = Some lk \<and> parentsFromLinkage net lk \<and> nodes net \<noteq> [] \<longrightarrow>
            (\<exists>net'. setNumClusters net K = Some (Inl (TypeError, net')))) \<and>
         (wfTree net \<and> nodes net \<noteq> [] \<longrightarrow>
            (\<exists>net'. flattenDendrogramTree net K = Some (Inl (TypeError, net'))))"
proof (intro conjI allI impI)
  assume "linkage net = None"
  then show "setNumClusters net K = Some (Inr net)" by (simp add: setNumClusters_def)
next
  fix lk assume a: "linkage net = Some lk \<and> parentsFromLinkage net lk \<and> nodes net \<noteq> []"
  show "\<exists>net'. setNumClusters net K = Some (Inl (TypeError, net'))"
  proof (cases "makeNetworkDendrogramTree net lk")
    case (Inl x)
    obtain e net1 where x: "x = (e, net1)" by (cases x)
    from makeNetworkDendrogramTree_frame(2)[OF Inl[unfolded x]] have "e = TypeError" by simp
    with a Inl x show ?thesis by (simp add: setNumClusters_def)
  next
    case (Inr net1)
    from a have p: "parentsFromLinkage net lk" by simp
    note w = makeNetworkDendrogramTree_wf[OF Inr p]
    from treeFrame_fields(16)[OF makeNetworkDendrogramTree_frame(1)[OF Inr]] a
    have "nodes net1 \<noteq> []" by auto
    from flatten_nonpositive[OF w this assms] obtain net'
      where "flattenDendrogramTree net1 K = Some (Inl (TypeError, net'))" by blast
    with a Inr show ?thesis by (simp add: setNumClusters_def)
  qed
next
  assume "wfTree net \<and> nodes net \<noteq> []"
  with assms show "\<exists>net'. flattenDendrogramTree net K = Some (Inl (TypeError, net'))"
    by (simp add: flatten_nonpositive)
qed

lemma fresh_parentsFromLinkage:
  "parentsFromLinkage (initNetwork ms mls nd ndls lk tu tf tv tvl ti nc n) lk'"
  by (simp add: parentsFromLinkage_def initNetwork_def newNode_def)

theorem nonpositive_cluster_count_witness:
  "setNumClusters liveNetwork 0 = Some (Inr liveNetwork) \<and>
   (\<exists>net'. setNumClusters fourNetwork 0 = Some (Inl (TypeError, net')))"
proof -
  have k: "(0::int) < 1" by simp
  have l0: "linkage liveNetwork = None"
    by (simp add: liveNetwork_def exampleNetwork_def initNetwork_def)
  have l4: "linkage fourNetwork = Some treeLinkage \<and> parentsFromLinkage fourNetwork treeLinkage \<and>
            nodes fourNetwork \<noteq> []"
    unfolding fourNetwork_def using fresh_parentsFromLinkage
    by (simp add: initNetwork_def)
  from nonpositive_cluster_count[OF k, of liveNetwork] l0
  have "setNumClusters liveNetwork 0 = Some (Inr liveNetwork)" by blast
  moreover from nonpositive_cluster_count[OF k, of fourNetwork] l4
  have "\<exists>net'. setNumClusters fourNetwork 0 = Some (Inl (TypeError, net'))" by blast
  ultimately show ?thesis by blast
qed

text \<open>
  C7 as stated fails: with the cluster count 0, \<^verbatim>\<open>setNumClusters\<close> on a network without
  linkage data returns, and so does the reduction on a network without nodes.
\<close>

theorem nonpositive_cluster_count_counterexample:
  "setNumClusters liveNetwork 0 = Some (Inr liveNetwork) \<and>
   flattenDendrogramTree noNodesNetwork 0 = Some (Inr noNodesNetwork)"
proof -
  have "setNumClusters liveNetwork 0 = Some (Inr liveNetwork)"
    by (simp add: setNumClusters_def liveNetwork_def exampleNetwork_def initNetwork_def)
  moreover have "getClusters noNodesNetwork = []"
    by (simp add: getClusters_def noNodesNetwork_def initNetwork_def)
  then have "flattenDendrogramTree noNodesNetwork 0 = Some (Inr noNodesNetwork)"
    unfolding flattenDendrogramTree_def by (subst flattenLoop.simps) simp
  ultimately show ?thesis by blast
qed







section \<open>Threshold arrays shared between networks\<close>

lemmas sim_defs = createNetwork_def extractSubNetwork_def extractSubMatrix_def fixNode_def
  setThresholdValue_def setNumClusters_def genColourScales_def
  thresholdNetwork_def initNetwork_def newNode_def thresholdMatrix_def paramTimes_def
  arr_get_int_def arr_get_num_def jsIndex_def outerLoop_def innerLoop_def edgeStep_def arr_get2_def
  arr_get_def val_get_def opt_get_def
  isNaN_def upt_rec clearNode_def pushNeighbour_def pushEdge_def initStats_def updateStats_def
  updMin_def updMax_def js_gt_def Let_def edgePairs_def MAX_VALUE_def

text \<open>
  C6 fails on the code. A network, a sub-network of it and a sub-network of that one are
  made; \<^verbatim>\<open>extractSubNetwork\<close> hands the parent's array of labels on as the array of values
  and the parent's array of values as the array of labels, so the third network's array
  of threshold values is the first network's. Setting a threshold value of the third
  network writes into that array and does not re-threshold the first network. Setting
  the first network's parameter 0 to the value it holds then changes its edges from
  \<open>(0, 1), (1, 2)\<close> to \<open>(0, 1), (0, 2), (1, 2)\<close>.
\<close>

theorem shared_values_scenario:
  "sharedScenario = Some ([(0, 1), (1, 2)], [(0, 1), (0, 2), (1, 2)])"
  by (simp add: sharedScenario_def sharedMatrix_def exampleStore_def sim_defs)

text \<open>Where the edges of a network are the ones the graph builder makes from its threshold
  state, setting a threshold parameter to the value it holds leaves the store and the
  edges as they were.\<close>

lemma setThresholdValue_same_value:
  assumes i: "0 \<le> idx" "idx < int (length (st ! thresholdValues net))"
    and c: "\<And>net0. thresholdNetwork st net = Inr net0 \<Longrightarrow> edges net0 = edges net"
    and r: "setThresholdValue st net idx (st ! thresholdValues net ! nat idx) = Some (Inr net', st')"
  shows "st' = st \<and> edges net' = edges net"
proof -
  have same: "st[thresholdValues net := (st ! thresholdValues net)[nat idx := st ! thresholdValues net ! nat idx]] = st"
    by (simp add: list_update_same_conv)
  from setThresholdValue_run[OF i r] same
  have st': "st' = st" by simp
  from setThresholdValue_run[OF i r]
  have "\<exists>net2. thresholdNetwork st' net = Inr net2 \<and> treeFrame net2 net'" by blast
  with st' obtain net2 where n2: "thresholdNetwork st net = Inr net2" and f: "treeFrame net2 net'"
    by auto
  from treeFrame_fields(1)[OF f] c[OF n2] st' show ?thesis by simp
qed

section \<open>Sub-networks\<close>

lemma mapE_nth:
  assumes "mapE f xs = Inr ys" and "i < length xs"
  shows "f (xs ! i) = Inr (ys ! i)"
proof -
  from assms(1) have m: "map f xs = map Inr ys" by (simp add: mapE_Inr)
  then have "length ys = length xs" by (auto dest: map_eq_imp_length_eq)
  with assms(2) have "map f xs ! i = f (xs ! i)" "map Inr ys ! i = Inr (ys ! i)" by simp_all
  with m show ?thesis by metis
qed

lemma extractSubMatrix_Inr:
  assumes "extractSubMatrix m idxs = Inr sm"
  shows "length sm = length idxs"
    and "\<And>a. a < length idxs \<Longrightarrow> length (sm ! a) = length idxs"
    and "\<And>a b. a < length idxs \<Longrightarrow> b < length idxs \<Longrightarrow>
           arr_get2 m (idxs ! a) (idxs ! b) = Inr (sm ! a ! b)"
proof -
  from assms have e: "mapE (\<lambda>i. mapE (\<lambda>j. arr_get2 m i j) idxs) idxs = Inr sm"
    by (simp add: extractSubMatrix_def)
  show "length sm = length idxs" using mapE_length[OF e] .
  fix a assume a: "a < length idxs"
  from mapE_nth[OF e a] have row: "mapE (\<lambda>j. arr_get2 m (idxs ! a) j) idxs = Inr (sm ! a)" .
  show "length (sm ! a) = length idxs" using mapE_length[OF row] .
  fix b assume b: "b < length idxs"
  from mapE_nth[OF row b] show "arr_get2 m (idxs ! a) (idxs ! b) = Inr (sm ! a ! b)" .
qed

lemma arr_get_num_nat:
  "arr_get_num xs (Num (real k)) = (if k < length xs then Some (xs ! k) else None)"
proof -
  have "jsIndex (Num (real k)) = Some k" by (simp add: jsIndex_Some)
  then show ?thesis by (simp add: arr_get_num_def arr_get_def)
qed

lemma fixNode_Inr:
  assumes "fixNode net idxs i s = Inr s'"
  shows "i < length idxs \<and> idxs ! i < length (nodes net) \<and>
         (\<exists>nd. s' = s\<lparr>nodes := (nodes s)[i := nd]\<rparr> \<and>
               n_name nd = n_name (nodes net ! (idxs ! i)) \<and>
               n_fullNetIndex nd = Some (n_index (nodes net ! (idxs ! i))))"
proof -
  have i: "i < length idxs"
  proof (rule ccontr)
    assume "\<not> i < length idxs"
    then have "fixNode net idxs i s = Inl (TypeError, s)"
      by (simp add: fixNode_def arr_get_def arr_get_num_def jsIndex_def)
    with assms show False by simp
  qed
  then have g: "arr_get idxs i = Some (idxs ! i)" by (simp add: arr_get_def)
  have k: "idxs ! i < length (nodes net)"
  proof (rule ccontr)
    assume "\<not> idxs ! i < length (nodes net)"
    then have "fixNode net idxs i s = Inl (TypeError, s)"
      by (simp add: fixNode_def g arr_get_num_nat)
    with assms show False by simp
  qed
  from assms show ?thesis
    by (auto simp: i k fixNode_def g arr_get_num_nat Let_def split: option.splits)
qed

lemma fixNode_loop:
  assumes "foldE (fixNode net idxs) [0..<n] s = Inr s'" and "n \<le> length (nodes s)"
  shows "\<exists>ns. s' = s\<lparr>nodes := ns\<rparr> \<and> length ns = length (nodes s) \<and>
           (\<forall>i<n. i < length idxs \<and> idxs ! i < length (nodes net) \<and>
                  n_name (ns ! i) = n_name (nodes net ! (idxs ! i)) \<and>
                  n_fullNetIndex (ns ! i) = Some (n_index (nodes net ! (idxs ! i))))"
  using assms
proof (induction n arbitrary: s')
  case 0
  then have "s' = s\<lparr>nodes := nodes s\<rparr>" by simp
  then show ?case by blast
next
  case (Suc n)
  from Suc.prems(1) obtain s1 where s1: "foldE (fixNode net idxs) [0..<n] s = Inr s1"
    and f: "fixNode net idxs n s1 = Inr s'"
    by (auto simp: foldE_append split: sum.splits)
  from Suc.prems(2) have "n \<le> length (nodes s)" by simp
  from Suc.IH[OF s1 this] obtain ns1 where e1: "s1 = s\<lparr>nodes := ns1\<rparr>"
    and l1: "length ns1 = length (nodes s)"
    and p1: "\<forall>i<n. i < length idxs \<and> idxs ! i < length (nodes net) \<and>
                  n_name (ns1 ! i) = n_name (nodes net ! (idxs ! i)) \<and>
                  n_fullNetIndex (ns1 ! i) = Some (n_index (nodes net ! (idxs ! i)))"
    by blast
  from fixNode_Inr[OF f] obtain nd where n: "n < length idxs" "idxs ! n < length (nodes net)"
    and e2: "s' = s1\<lparr>nodes := (nodes s1)[n := nd]\<rparr>"
    and nd: "n_name nd = n_name (nodes net ! (idxs ! n))"
            "n_fullNetIndex nd = Some (n_index (nodes net ! (idxs ! n)))"
    by blast
  have e: "s' = s\<lparr>nodes := ns1[n := nd]\<rparr>" by (simp add: e1 e2)
  have l: "length (ns1[n := nd]) = length (nodes s)" by (simp add: l1)
  have "\<forall>i<Suc n. i < length idxs \<and> idxs ! i < length (nodes net) \<and>
                  n_name (ns1[n := nd] ! i) = n_name (nodes net ! (idxs ! i)) \<and>
                  n_fullNetIndex (ns1[n := nd] ! i) = Some (n_index (nodes net ! (idxs ! i)))"
  proof (intro allI impI)
    fix i assume i: "i < Suc n"
    show "i < length idxs \<and> idxs ! i < length (nodes net) \<and>
                  n_name (ns1[n := nd] ! i) = n_name (nodes net ! (idxs ! i)) \<and>
                  n_fullNetIndex (ns1[n := nd] ! i) = Some (n_index (nodes net ! (idxs ! i)))"
    proof (cases "i = n")
      case True
      from Suc.prems(2) l1 have "n < length ns1" by simp
      then show ?thesis using n nd True by simp
    next
      case False
      with i have "i < n" by simp
      with p1 False show ?thesis by simp
    qed
  qed
  with e l show ?case by blast
qed

lemma thresholdNetwork_edge_spec:
  assumes "thresholdNetwork st net = Inr net'"
  shows "\<exists>T. thresholded st net = Inr T \<and>
            (\<forall>i j. i < j \<and> j < length (nodes net) \<longrightarrow>
               (\<exists>v. arr_get2 T i j = Inr v \<and>
                    ((\<exists>e \<in> set (edges net'). e_i e = i \<and> e_j e = j) \<longleftrightarrow> \<not> isNaN v)))"
  using thresholdNetwork_graph(1)[OF assms] by (elim exE conjE) (intro exI conjI)

lemma extractSubNetwork_Inr:
  assumes "extractSubNetwork st net rootIdx = Some (Inr sub)"
  obtains subMs subnet subnet1
  where "rootIdx < length (nodes net)"
    and "mapE (\<lambda>m. extractSubMatrix m (subNodeIdxs net rootIdx)) (matrices net) = Inr subMs"
    and "createNetwork st subMs (matrixLabels net)
           (map (\<lambda>array. map (\<lambda>idx. val_get array idx) (subNodeIdxs net rootIdx)) (nodeData net))
           (nodeDataLabels net) None (thumbUrl net) (thresholdFunc net)
           (thresholdValueLabels net) (thresholdValues net) (thresholdIdx net) 1 = Some (Inr subnet)"
    and "foldE (fixNode net (subNodeIdxs net rootIdx)) [0..<length (nodes subnet)] subnet = Inr subnet1"
    and "\<exists>h tn. sub = subnet1\<lparr>heap := h,
                  nodes := map (\<lambda>node. node\<lparr>n_parent := Some (length (heap subnet1))\<rparr>) (nodes subnet1),
                  treeNodes := tn\<rparr>"
proof -
  have r: "rootIdx < length (nodes net)"
  proof (rule ccontr)
    assume "\<not> rootIdx < length (nodes net)"
    then have "extractSubNetwork st net rootIdx = Some (Inl TypeError)"
      by (simp add: extractSubNetwork_def arr_get_def)
    with assms show False by simp
  qed
  then have g: "arr_get (nodes net) rootIdx = Some (nodes net ! rootIdx)" by (simp add: arr_get_def)
  let ?idxs = "subNodeIdxs net rootIdx"
  note d = extractSubNetwork_def g option.case Let_def subNodeIdxs_def[symmetric]
  from assms obtain subMs where m: "mapE (\<lambda>m. extractSubMatrix m ?idxs) (matrices net) = Inr subMs"
    unfolding d by (cases "mapE (\<lambda>m. extractSubMatrix m ?idxs) (matrices net)") auto
  let ?c = "createNetwork st subMs (matrixLabels net)
           (map (\<lambda>array. map (\<lambda>idx. val_get array idx) ?idxs) (nodeData net))
           (nodeDataLabels net) None (thumbUrl net) (thresholdFunc net)
           (thresholdValueLabels net) (thresholdValues net) (thresholdIdx net) 1"
  from assms obtain subnet where c: "?c = Some (Inr subnet)"
    unfolding d m sum.case by (cases ?c) (auto split: sum.splits)
  let ?f = "foldE (fixNode net ?idxs) [0..<length (nodes subnet)] subnet"
  from assms obtain subnet1 where f: "?f = Inr subnet1"
    unfolding d m sum.case c by (cases ?f) auto
  from assms have "\<exists>h tn. sub = subnet1\<lparr>heap := h,
                  nodes := map (\<lambda>node. node\<lparr>n_parent := Some (length (heap subnet1))\<rparr>) (nodes subnet1),
                  treeNodes := tn\<rparr>"
    unfolding d m sum.case c f by auto
  with r m c f show ?thesis by (rule that)
qed

lemma subNodeIdxs_set:
  assumes ix: "\<forall>k < length (nodes net). n_index (nodes net ! k) = k"
    and nb: "\<forall>k \<in> set (n_neighbours (nodes net ! rootIdx)). k < length (nodes net)"
  shows "subNodeIdxs net rootIdx = sort (rootIdx # n_neighbours (nodes net ! rootIdx))"
    and "set (subNodeIdxs net rootIdx) = insert rootIdx (set (n_neighbours (nodes net ! rootIdx)))"
proof -
  from ix nb have "map (\<lambda>nb. n_index (nodes net ! nb)) (n_neighbours (nodes net ! rootIdx))
      = n_neighbours (nodes net ! rootIdx)"
    by (simp add: map_idI)
  then show "subNodeIdxs net rootIdx = sort (rootIdx # n_neighbours (nodes net ! rootIdx))"
    by (simp add: subNodeIdxs_def)
  then show "set (subNodeIdxs net rootIdx) = insert rootIdx (set (n_neighbours (nodes net ! rootIdx)))"
    by (simp only: set_sort list.set)
qed

lemma sub_network_parts:
  assumes ex: "extractSubNetwork st net rootIdx = Some (Inr sub)"
  shows "length (nodes sub) = length (subNodeIdxs net rootIdx)"
    and "\<forall>a < length (nodes sub). subNodeIdxs net rootIdx ! a < length (nodes net) \<and>
           n_fullNetIndex (nodes sub ! a) = Some (n_index (nodes net ! (subNodeIdxs net rootIdx ! a))) \<and>
           n_name (nodes sub ! a) = n_name (nodes net ! (subNodeIdxs net rootIdx ! a))"
    and "\<exists>subMs. mapE (\<lambda>m. extractSubMatrix m (subNodeIdxs net rootIdx)) (matrices net) = Inr subMs \<and>
           (\<exists>T. thresholdFunc net (arr_get_int subMs (thresholdIdx net)) (st ! thresholdValueLabels net) = Inr T \<and>
              (\<forall>a b. a < b \<and> b < length (nodes sub) \<longrightarrow>
                 (\<exists>v. arr_get2 T a b = Inr v \<and>
                    ((\<exists>e \<in> set (edges sub). e_i e = a \<and> e_j e = b) \<longleftrightarrow> \<not> isNaN v))))"
    and "\<forall>e \<in> set (edges sub). e_i e < e_j e \<and> e_j e < length (nodes sub) \<and>
           (\<forall>k < length (matrices net).
              arr_get2 (matrices net ! k) (subNodeIdxs net rootIdx ! e_i e) (subNodeIdxs net rootIdx ! e_j e)
                = Inr (e_weights e ! k))"
    and "thresholdValues sub = thresholdValueLabels net \<and> thresholdValueLabels sub = thresholdValues net"
proof -
  let ?idxs = "subNodeIdxs net rootIdx"
  let ?nd = "map (\<lambda>array. map (\<lambda>idx. val_get array idx) ?idxs) (nodeData net)"
  from ex obtain subMs subnet subnet1
    where m: "mapE (\<lambda>m. extractSubMatrix m ?idxs) (matrices net) = Inr subMs"
      and c: "createNetwork st subMs (matrixLabels net) ?nd
           (nodeDataLabels net) None (thumbUrl net) (thresholdFunc net)
           (thresholdValueLabels net) (thresholdValues net) (thresholdIdx net) 1 = Some (Inr subnet)"
      and f: "foldE (fixNode net ?idxs) [0..<length (nodes subnet)] subnet = Inr subnet1"
      and s: "\<exists>h tn. sub = subnet1\<lparr>heap := h,
                  nodes := map (\<lambda>node. node\<lparr>n_parent := Some (length (heap subnet1))\<rparr>) (nodes subnet1),
                  treeNodes := tn\<rparr>"
    by (rule extractSubNetwork_Inr)
  from createNetwork_Inr[OF c] obtain m0 net1 where m0: "arr_get subMs 0 = Some m0"
    and t: "thresholdNetwork st (initNetwork subMs (matrixLabels net) ?nd
           (nodeDataLabels net) None (thumbUrl net) (thresholdFunc net)
           (thresholdValueLabels net) (thresholdValues net) (thresholdIdx net) 1 (length m0)) = Inr net1"
    and fr: "treeFrame net1 subnet"
    by blast
  let ?init = "initNetwork subMs (matrixLabels net) ?nd
           (nodeDataLabels net) None (thumbUrl net) (thresholdFunc net)
           (thresholdValueLabels net) (thresholdValues net) (thresholdIdx net) 1 (length m0)"
  have lm: "length subMs = length (matrices net)" using mapE_length[OF m] .
  from m0 have z: "0 < length subMs" and m0': "m0 = subMs ! 0"
    by (auto simp: arr_get_def split: if_splits)
  have sm: "\<And>k. k < length (matrices net) \<Longrightarrow> extractSubMatrix (matrices net ! k) ?idxs = Inr (subMs ! k)"
    by (rule mapE_nth[OF m])
  from z lm sm[of 0] have e0: "extractSubMatrix (matrices net ! 0) ?idxs = Inr m0" by (simp add: m0')
  have l0: "length m0 = length ?idxs" using extractSubMatrix_Inr(1)[OF e0] .
  have init: "length (nodes ?init) = length ?idxs" "matrices ?init = subMs"
    "thresholdFunc ?init = thresholdFunc net" "thresholdIdx ?init = thresholdIdx net"
    "thresholdValues ?init = thresholdValueLabels net"
    by (simp_all add: initNetwork_def l0)
  from t obtain T ns where net1: "net1 = ?init\<lparr>nodes := ns,
                    edges := map (mkEdge (matrices ?init)) (filter (kept T) (pairs (length (nodes ?init)))),
                    matrixMins := s_mins (finalStats T (matrices ?init) (length (nodes ?init))),
                    matrixMaxs := s_maxs (finalStats T (matrices ?init) (length (nodes ?init))),
                    matrixAbsMins := s_absMins (finalStats T (matrices ?init) (length (nodes ?init))),
                    matrixAbsMaxs := s_absMaxs (finalStats T (matrices ?init) (length (nodes ?init)))\<rparr>"
    and lns: "length ns = length (nodes ?init)"
    by (rule thresholdNetwork_Inr)
  have "nodes net1 = ns" by (subst net1) simp
  with lns init(1) have n1a: "length (nodes net1) = length ?idxs" by simp
  have "thresholdValues net1 = thresholdValues ?init" by (subst net1) simp
  with init(5) have n1b: "thresholdValues net1 = thresholdValueLabels net" by simp
  note n1 = n1a n1b
  have n0: "length (nodes subnet) = length ?idxs" "thresholdValues subnet = thresholdValueLabels net"
    "edges subnet = edges net1"
    using treeFrame_fields(16)[OF fr] treeFrame_fields(3)[OF fr] treeFrame_fields(1)[OF fr] n1 by simp_all
  from fixNode_loop[OF f order_refl] obtain ns1 where e1: "subnet1 = subnet\<lparr>nodes := ns1\<rparr>"
    and l1: "length ns1 = length (nodes subnet)"
    and p1: "\<forall>i<length (nodes subnet). i < length ?idxs \<and> ?idxs ! i < length (nodes net) \<and>
                  n_name (ns1 ! i) = n_name (nodes net ! (?idxs ! i)) \<and>
                  n_fullNetIndex (ns1 ! i) = Some (n_index (nodes net ! (?idxs ! i)))"
    by blast
  from s obtain h tn where sub: "sub = subnet1\<lparr>heap := h,
                  nodes := map (\<lambda>node. node\<lparr>n_parent := Some (length (heap subnet1))\<rparr>) (nodes subnet1),
                  treeNodes := tn\<rparr>"
    by blast
  have ns: "nodes sub = map (\<lambda>node. node\<lparr>n_parent := Some (length (heap subnet1))\<rparr>) ns1"
    by (simp add: sub e1)
  have es: "edges sub = edges net1" by (simp add: sub e1 n0)
  have tv: "thresholdValues sub = thresholdValueLabels net" by (simp add: sub e1 n0)
  have "thresholdValueLabels net1 = thresholdValueLabels ?init" by (subst net1) simp
  then have "thresholdValueLabels net1 = thresholdValues net" by (simp add: initNetwork_def)
  with treeFrame_fields(4)[OF fr] have "thresholdValueLabels subnet = thresholdValues net" by simp
  then have tl: "thresholdValueLabels sub = thresholdValues net" by (simp add: sub e1)
  from tv tl show "thresholdValues sub = thresholdValueLabels net \<and> thresholdValueLabels sub = thresholdValues net"
    by simp
  show len: "length (nodes sub) = length ?idxs" by (simp add: ns l1 n0)
  show "\<forall>a < length (nodes sub). ?idxs ! a < length (nodes net) \<and>
           n_fullNetIndex (nodes sub ! a) = Some (n_index (nodes net ! (?idxs ! a))) \<and>
           n_name (nodes sub ! a) = n_name (nodes net ! (?idxs ! a))"
  proof (intro allI impI)
    fix a assume a: "a < length (nodes sub)"
    with len n0 have a': "a < length (nodes subnet)" by simp
    with l1 have "nodes sub ! a = (ns1 ! a)\<lparr>n_parent := Some (length (heap subnet1))\<rparr>"
      by (simp add: ns)
    with p1[rule_format, OF a']
    show "?idxs ! a < length (nodes net) \<and>
           n_fullNetIndex (nodes sub ! a) = Some (n_index (nodes net ! (?idxs ! a))) \<and>
           n_name (nodes sub ! a) = n_name (nodes net ! (?idxs ! a))"
      by simp
  qed
  from thresholdNetwork_edge_spec(1)[OF t]
  have "\<exists>T. thresholdFunc net (arr_get_int subMs (thresholdIdx net)) (st ! thresholdValueLabels net) = Inr T \<and>
              (\<forall>a b. a < b \<and> b < length (nodes sub) \<longrightarrow>
                 (\<exists>v. arr_get2 T a b = Inr v \<and>
                    ((\<exists>e \<in> set (edges sub). e_i e = a \<and> e_j e = b) \<longleftrightarrow> \<not> isNaN v)))"
    unfolding thresholded_def init es len .
  with m show "\<exists>subMs. mapE (\<lambda>m. extractSubMatrix m ?idxs) (matrices net) = Inr subMs \<and>
           (\<exists>T. thresholdFunc net (arr_get_int subMs (thresholdIdx net)) (st ! thresholdValueLabels net) = Inr T \<and>
              (\<forall>a b. a < b \<and> b < length (nodes sub) \<longrightarrow>
                 (\<exists>v. arr_get2 T a b = Inr v \<and>
                    ((\<exists>e \<in> set (edges sub). e_i e = a \<and> e_j e = b) \<longleftrightarrow> \<not> isNaN v))))"
    by blast
  note w = thresholdNetwork_graph(2)[OF t, unfolded init, folded es]
  show "\<forall>e \<in> set (edges sub). e_i e < e_j e \<and> e_j e < length (nodes sub) \<and>
           (\<forall>k < length (matrices net).
              arr_get2 (matrices net ! k) (?idxs ! e_i e) (?idxs ! e_j e) = Inr (e_weights e ! k))"
  proof
    fix e assume e: "e \<in> set (edges sub)"
    from w[rule_format, OF e] have o: "e_i e < e_j e" and b: "e_j e < length ?idxs"
      and ws: "\<forall>k < length subMs. arr_get2 (subMs ! k) (e_i e) (e_j e) = Inr (e_weights e ! k)"
      by simp_all
    from o b have a: "e_i e < length ?idxs" by simp
    have "\<forall>k < length (matrices net).
              arr_get2 (matrices net ! k) (?idxs ! e_i e) (?idxs ! e_j e) = Inr (e_weights e ! k)"
    proof (intro allI impI)
      fix k assume k: "k < length (matrices net)"
      note x = extractSubMatrix_Inr[OF sm[OF k]]
      from x(1) a have "e_i e < length (subMs ! k)" by simp
      moreover from x(2)[OF a] b have "e_j e < length (subMs ! k ! e_i e)" by simp
      ultimately have "arr_get2 (subMs ! k) (e_i e) (e_j e) = Inr (subMs ! k ! e_i e ! e_j e)"
        by (simp add: arr_get2_def arr_get_def val_get_def)
      with ws k lm have "e_weights e ! k = subMs ! k ! e_i e ! e_j e" by simp
      with x(3)[OF a b]
      show "arr_get2 (matrices net ! k) (?idxs ! e_i e) (?idxs ! e_j e) = Inr (e_weights e ! k)"
        by simp
    qed
    with o b len show "e_i e < e_j e \<and> e_j e < length (nodes sub) \<and>
           (\<forall>k < length (matrices net).
              arr_get2 (matrices net ! k) (?idxs ! e_i e) (?idxs ! e_j e) = Inr (e_weights e ! k))"
      by simp
  qed
qed

text \<open>The part of C3 on the nodes holds. When \<^verbatim>\<open>extractSubNetwork\<close> returns, on a network
  whose nodes carry their position as index and whose root has its neighbours among the
  nodes (as in every network that \<^verbatim>\<open>createNetwork\<close> made), the sub-network has one node for
  each entry of the sorted list of the root index and the root's neighbours; each node
  stores the index of its node in the parent network, which is the root index or a
  neighbour of the root, and has the name of that node.\<close>

lemma sub_network_nodes:
  assumes ex: "extractSubNetwork st net rootIdx = Some (Inr sub)"
    and ix: "\<forall>k < length (nodes net). n_index (nodes net ! k) = k"
    and nb: "\<forall>k \<in> set (n_neighbours (nodes net ! rootIdx)). k < length (nodes net)"
  shows "length (nodes sub) = length (subNodeIdxs net rootIdx) \<and>
     subNodeIdxs net rootIdx = sort (rootIdx # n_neighbours (nodes net ! rootIdx)) \<and>
     (\<forall>a < length (nodes sub).
        n_fullNetIndex (nodes sub ! a) = Some (subNodeIdxs net rootIdx ! a) \<and>
        (subNodeIdxs net rootIdx ! a = rootIdx \<or>
         subNodeIdxs net rootIdx ! a \<in> set (n_neighbours (nodes net ! rootIdx))) \<and>
        n_name (nodes sub ! a) = n_name (nodes net ! (subNodeIdxs net rootIdx ! a)))"
proof -
  let ?idxs = "subNodeIdxs net rootIdx"
  note p = sub_network_parts[OF ex]
  note q = subNodeIdxs_set[OF ix nb]
  have "\<forall>a < length (nodes sub).
        n_fullNetIndex (nodes sub ! a) = Some (?idxs ! a) \<and>
        (?idxs ! a = rootIdx \<or> ?idxs ! a \<in> set (n_neighbours (nodes net ! rootIdx))) \<and>
        n_name (nodes sub ! a) = n_name (nodes net ! (?idxs ! a))"
  proof (intro allI impI)
    fix a assume a: "a < length (nodes sub)"
    note r = p(2)[rule_format, OF a]
    from r have k: "?idxs ! a < length (nodes net)" by simp
    with ix have i: "n_index (nodes net ! (?idxs ! a)) = ?idxs ! a" by simp
    from a p(1) have "?idxs ! a \<in> set ?idxs" by simp
    then have "?idxs ! a = rootIdx \<or> ?idxs ! a \<in> set (n_neighbours (nodes net ! rootIdx))"
      unfolding q(2) by simp
    with r i show "n_fullNetIndex (nodes sub ! a) = Some (?idxs ! a) \<and>
        (?idxs ! a = rootIdx \<or> ?idxs ! a \<in> set (n_neighbours (nodes net ! rootIdx))) \<and>
        n_name (nodes sub ! a) = n_name (nodes net ! (?idxs ! a))"
      by simp
  qed
  then show ?thesis by (intro conjI p(1) q(1))
qed

text \<open>The threshold function on \<open>sharedMatrix\<close>: with the array of threshold values, which
  holds 0.5, the entries 4 are suppressed; with the array of labels in the place of the
  values the product is \<^verbatim>\<open>NaN\<close> and nothing is suppressed.\<close>

lemma sharedMatrix_thresholded_by_values:
  "thresholdMatrix paramTimes (Some sharedMatrix) (exampleStore ! 0) =
     Inr [[NaN, Num 10, NaN], [Num 10, NaN, Num 10], [NaN, Num 10, NaN]]"
  by (simp add: thresholdMatrix_def sharedMatrix_def exampleStore_def paramTimes_def opt_get_def
      val_get_def js_gt_def upt_rec Let_def)

lemma sharedMatrix_thresholded_by_labels:
  "thresholdMatrix paramTimes (Some sharedMatrix) (exampleStore ! 1) = Inr sharedMatrix"
  by (simp add: thresholdMatrix_def sharedMatrix_def exampleStore_def paramTimes_def opt_get_def
      val_get_def js_gt_def upt_rec Let_def)

text \<open>
  C3 fails on the code. \<^verbatim>\<open>extractSubNetwork\<close> is to return the root, its neighbours and
  the edges between them. It builds the sub-network with \<^verbatim>\<open>createNetwork\<close> from the
  sub-matrices and hands the parent's array of labels on as the array of threshold
  values (lemma \<open>sub_network_parts\<close>), so that the sub-matrix is thresholded with the
  labels. On the network of \<open>sharedMatrix\<close>, whose edges are \<open>(0, 1)\<close> and \<open>(1, 2)\<close>, with
  the root 1, the sub-network has the three nodes of the network, with the names and
  the stored indices of the parent's nodes, and the sub-matrix is the whole matrix; the
  induced subgraph has the edges \<open>(0, 1)\<close> and \<open>(1, 2)\<close>, and the sub-network has the edge
  \<open>(0, 2)\<close> as well.
\<close>

theorem sub_network_not_induced:
  "subScenario 1 = Some ([''1'', ''2'', ''3''], [Some 0, Some 1, Some 2],
                         [(0, 1), (1, 2)], [(0, 1), (0, 2), (1, 2)])"
  by (simp add: subScenario_def inducedEdges_def pairs_def sharedMatrix_def exampleStore_def sim_defs
        digitChar_def)

end
